theory Spec2Isabelle
  imports Main "HOL-Library.Sublist"
begin

section \<open>JavaScript values\<close>

text \<open>
  The fields of the network parameters that \<open>assertParams\<close> tests are untyped
  JavaScript values. \<open>JObj\<close> stands for any object, array or function.
\<close>

datatype jsval = JUndefined | JNull | JBool bool | JNum int | JNaN | JStr string | JObj

text \<open>The truth value JavaScript gives a value in \<open>!v\<close>, \<open>v || d\<close> and \<open>if (v)\<close>.\<close>

fun truthy :: "jsval \<Rightarrow> bool" where
  "truthy JUndefined = False"
| "truthy JNull = False"
| "truthy (JBool b) = b"
| "truthy (JNum n) = (n \<noteq> 0)"
| "truthy JNaN = False"
| "truthy (JStr s) = (s \<noteq> [])"
| "truthy JObj = True"

text \<open>\<open>v == null\<close> holds of \<open>null\<close> and \<open>undefined\<close> only.\<close>

fun nullish :: "jsval \<Rightarrow> bool" where
  "nullish JUndefined = True"
| "nullish JNull = True"
| "nullish v = False"

text \<open>\<open>a || b\<close> on values.\<close>

definition jsOr :: "jsval \<Rightarrow> jsval \<Rightarrow> jsval" where
  "jsOr a b = (if truthy a then a else b)"

section \<open>Network parameters, options, errors\<close>

text \<open>
  An overlay seed is either an address string or a ready-made seed object
  \<open>{transport, address, opts}\<close>.
\<close>

datatype web_seed = SeedString string | SeedSpec string string jsval

text \<open>
  The \<open>params\<close> object (\<open>net_id\<close> is its field \<open>id\<close>). A field that is absent
  reads as \<open>JUndefined\<close>; an absent array is \<open>None\<close>; \<open>getNewPeer\<close> tells whether
  a discovery function is supplied.
\<close>

record net_params =
  net_id :: jsval
  magic :: jsval
  defaultPort :: jsval
  defaultWebPort :: jsval
  protocolVersion :: jsval
  dnsSeeds :: "string list option"
  staticPeers :: "string list option"
  webSeeds :: "web_seed list option"
  getNewPeer :: bool

text \<open>The \<open>opts\<close> object of the constructor; \<open>None\<close> is an absent field.\<close>

record pool_opts =
  opt_numPeers :: "nat option"
  opt_hardLimit :: "bool option"
  opt_connectWeb :: "bool option"
  opt_connectTimeout :: "nat option"
  opt_handshakeTimeout :: "nat option"

datatype error =
    InvalidNetworkParameters
  | NoMethodsAvailable
  | ConnectionTimedOut
  | ConnectionError
  | External string

definition DEFAULT_PXP_PORT :: int where
  "DEFAULT_PXP_PORT = 8192"

text \<open>
  \<open>assertParams\<close>: the argument is \<open>None\<close> for a \<open>params\<close> that is no object at all
  (\<open>null\<close>, \<open>undefined\<close> or a primitive, whose three fields all read as
  \<open>undefined\<close>).
\<close>

definition assertParams :: "net_params option \<Rightarrow> error + unit" where
  "assertParams params =
     (case params of
        None \<Rightarrow> Inl InvalidNetworkParameters
      | Some ps \<Rightarrow>
          if \<not> truthy (net_id ps) \<or> nullish (magic ps) \<or> \<not> truthy (defaultPort ps)
          then Inl InvalidNetworkParameters
          else Inr ())"

section \<open>The state of a pool and of the objects around it\<close>

text \<open>
  A peer object is referred to by identity: \<open>Own n\<close> is the \<open>n\<close>-th peer that
  \<open>_onConnection\<close> creates with \<open>new Peer\<close>, \<open>Ext n\<close> a peer object made
  elsewhere and handed to \<open>addPeer\<close>.
\<close>

datatype peer_ref = Own nat | Ext nat

text \<open>
  What the pool can see of a peer object and what it has attached to it: the \<open>ready\<close>
  flag, the listener \<open>onError\<close> that \<open>_onConnection\<close> puts on \<open>error\<close> and on
  \<open>disconnect\<close> (attached and detached together), its \<open>once('ready')\<close> listener, the
  callbacks \<open>addPeer\<close> queued through \<open>_onceReady\<close>, and the numbers of
  \<open>once('disconnect')\<close> and \<open>on('error')\<close> listeners that \<open>addPeer\<close> registered.
\<close>

record peer_obj =
  ready :: bool
  onErrorAttached :: bool
  readyAttached :: bool
  onceReadyCbs :: nat
  disconnectHandlers :: nat
  errorHandlers :: nat

definition freshPeer :: peer_obj where
  "freshPeer = \<lparr>ready = False, onErrorAttached = False, readyAttached = False,
     onceReadyCbs = 0, disconnectHandlers = 0, errorHandlers = 0\<rparr>"

text \<open>The four discovery methods that \<open>_connectPeer\<close> collects in \<open>getPeerArray\<close>.\<close>

datatype discovery = DnsSeed | StaticList | OverlayExchange | CustomHook

text \<open>
  The timer of one attempt: none was set (falsy \<open>connectTimeout\<close>), set and pending,
  fired, or cleared by \<open>clearTimeout\<close>. The runtime fires a pending timer at most
  once and never fires a cleared one.
\<close>

datatype timer = NoTimer | Armed | Fired | Cleared

text \<open>
  How far the discovery method of an attempt has come: waiting for \<open>dns.resolve\<close>,
  waiting for the socket of \<open>net.connect\<close>, waiting for the callback of an outside
  method, or its callback has been called.
\<close>

datatype stage = Resolving | Dialing | Waiting | Completed

text \<open>
  One call of \<open>_connectPeer\<close> that selected a method: the closure variables
  \<open>timeout\<close> and \<open>timedOut\<close> and the progress of the method.
\<close>

record attempt =
  a_method :: discovery
  a_timeout :: timer
  timedOut :: bool
  a_stage :: stage

text \<open>Events the pool emits, and calls it makes on its collaborators.\<close>

datatype emitted =
    EvConnectError error "peer_ref option"
  | EvPeer peer_ref
  | EvDisconnect peer_ref
  | EvPeerError "error option"

datatype io =
    DnsResolve "string option"
  | NetConnect jsval "string option"
  | SocketSetTimeout nat
  | ExchangeConnect string string jsval
  | ExchangeGetNewPeer
  | ParamsGetNewPeer
  | NewPeer peer_ref
  | PeerDisconnectCall peer_ref

text \<open>
  The fields of the \<open>PeerGroup\<close> object, followed by the state around it that its
  callbacks read and write: \<open>process.browser\<close>, the length of \<open>_exchange.peers\<close>,
  the \<open>onPeer\<close> closures that \<open>connect\<close> registered on the event \<open>peer\<close> (each
  with its counter \<open>i\<close> and its \<open>nSeeds\<close>), the peer objects, the attempts made so
  far, what was emitted and called, and the numbers that \<open>utils.getRandom\<close> will
  draw.
\<close>

record peer_group =
  params :: net_params
  numPeers :: nat
  peers :: "peer_ref list"
  hardLimit :: bool
  connectWeb :: bool
  connectTimeout :: nat
  handshakeTimeout :: nat
  connecting :: bool
  browser :: bool
  exchangePeers :: nat
  onPeerListeners :: "(nat \<times> nat) list"
  peerObjs :: "peer_ref \<Rightarrow> peer_obj"
  created :: nat
  attempts :: "attempt list"
  emitted :: "emitted list"
  calls :: "io list"
  rnd :: "nat list"

section \<open>The constructor\<close>

text \<open>
  \<open>new PeerGroup(params, opts)\<close> in a process whose \<open>process.browser\<close> is
  \<open>isBrowser\<close>. \<open>x || d\<close> takes the default for an absent and for a falsy \<open>x\<close>
  (\<open>0\<close>, \<open>false\<close>). The overlay exchange object is created empty; \<open>getTip\<close> and
  \<open>wrtc\<close> are passed through to collaborators and not modelled.
\<close>

definition orDefault :: "nat option \<Rightarrow> nat \<Rightarrow> nat" where
  "orDefault x d = (case x of None \<Rightarrow> d | Some v \<Rightarrow> if v = 0 then d else v)"

definition PeerGroup ::
  "bool \<Rightarrow> nat list \<Rightarrow> net_params option \<Rightarrow> pool_opts option \<Rightarrow> error + peer_group" where
  "PeerGroup isBrowser draws ps opts =
     (case assertParams ps of
        Inl e \<Rightarrow> Inl e
      | Inr _ \<Rightarrow>
          (case ps of
             None \<Rightarrow> Inl InvalidNetworkParameters
           | Some ps' \<Rightarrow>
               let os = (case opts of
                           None \<Rightarrow> \<lparr>opt_numPeers = None, opt_hardLimit = None,
                                     opt_connectWeb = None, opt_connectTimeout = None,
                                     opt_handshakeTimeout = None\<rparr>
                         | Some o' \<Rightarrow> o')
               in Inr \<lparr>params = ps',
                       numPeers = orDefault (opt_numPeers os) 8,
                       peers = [],
                       hardLimit = (case opt_hardLimit os of None \<Rightarrow> False | Some b \<Rightarrow> b),
                       connectWeb = (case opt_connectWeb os of None \<Rightarrow> isBrowser | Some b \<Rightarrow> b),
                       connectTimeout = orDefault (opt_connectTimeout os) (5 * 1000),
                       handshakeTimeout = orDefault (opt_handshakeTimeout os) (5 * 1000),
                       connecting = False,
                       browser = isBrowser,
                       exchangePeers = 0,
                       onPeerListeners = [],
                       peerObjs = (\<lambda>_. freshPeer),
                       created = 0,
                       attempts = [],
                       emitted = [],
                       calls = [],
                       rnd = draws\<rparr>))"

section \<open>Helpers of the source\<close>

definition emit :: "emitted \<Rightarrow> peer_group \<Rightarrow> peer_group" where
  "emit e w = w\<lparr>emitted := emitted w @ [e]\<rparr>"

definition call :: "io \<Rightarrow> peer_group \<Rightarrow> peer_group" where
  "call c w = w\<lparr>calls := calls w @ [c]\<rparr>"

text \<open>
  Modelled from the spec: \<open>utils.getRandom\<close> (of \<open>utils.js\<close>, which is not among the
  sources) picks one element of a sequence uniformly at random. The model takes the
  next number of \<open>rnd\<close> (0 when the supply is used up) modulo the length; on an empty
  array the result is \<open>undefined\<close>, here \<open>None\<close>.
\<close>

definition getRandom :: "'a list \<Rightarrow> peer_group \<Rightarrow> 'a option \<times> peer_group" where
  "getRandom xs w =
     (let r = (case rnd w of [] \<Rightarrow> 0 | n # _ \<Rightarrow> n);
          w' = w\<lparr>rnd := tl (rnd w)\<rparr>
      in (if xs = [] then None else Some (xs ! (r mod length xs)), w'))"

text \<open>
  Modelled from the spec: \<open>utils.parseAddress\<close> (of \<open>utils.js\<close>, which is not among
  the sources) parses a \<open>"host:port"\<close>-style string into \<open>{hostname, port}\<close>. The
  model splits at the first colon; without a colon the port is \<open>null\<close>.
\<close>

record address =
  hostname :: string
  port :: jsval

definition parseAddress :: "string \<Rightarrow> address" where
  "parseAddress s =
     (let h = takeWhile (\<lambda>c. c \<noteq> CHR '':'') s;
          r = dropWhile (\<lambda>c. c \<noteq> CHR '':'') s
      in \<lparr>hostname = h, port = (case r of [] \<Rightarrow> JNull | _ # p \<Rightarrow> JStr p)\<rparr>)"

text \<open>\<open>Array.prototype.indexOf\<close>: the first position of \<open>x\<close>, or \<open>-1\<close>.\<close>

fun indexOf :: "'a list \<Rightarrow> 'a \<Rightarrow> int" where
  "indexOf [] x = -1"
| "indexOf (y # ys) x = (if y = x then 0 else (let i = indexOf ys x in if i < 0 then -1 else i + 1))"

text \<open>
  \<open>xs.splice(index, 1)\<close>: a negative start counts from the end (and is clamped at
  0), a start beyond the end is clamped to the length; one element is removed from
  there, if there is one.
\<close>

definition splice1 :: "int \<Rightarrow> 'a list \<Rightarrow> 'a list" where
  "splice1 index xs =
     (let len = int (length xs);
          start = (if index < 0 then max (len + index) 0 else min index len)
      in take (nat start) xs @ drop (nat start + 1) xs)"

text \<open>Running a callback \<open>n\<close> times in a row; \<open>None\<close> as soon as one call does not return.\<close>

fun times :: "nat \<Rightarrow> ('s \<Rightarrow> 's option) \<Rightarrow> 's \<Rightarrow> 's option" where
  "times 0 f w = Some w"
| "times (Suc n) f w = (case f w of None \<Rightarrow> None | Some w' \<Rightarrow> times n f w')"

section \<open>Discovery methods\<close>

text \<open>
  A result of type \<open>peer_group option\<close> is \<open>None\<close> when the call does not return
  normally: it recurses without end (in JavaScript, until the stack overflows) or
  it throws. An attempt is referred to by its position \<open>a\<close> in \<open>attempts\<close>; the
  callbacks of an attempt are closures made together with it, so they are only ever
  called for a position that exists (see \<open>step\<close> below).
\<close>

definition setStage :: "nat \<Rightarrow> stage \<Rightarrow> peer_group \<Rightarrow> peer_group" where
  "setStage a s w = w\<lparr>attempts := (attempts w)[a := (attempts w ! a)\<lparr>a_stage := s\<rparr>]\<rparr>"

text \<open>
  \<open>_connectTCP(host, port, cb)\<close> for the attempt \<open>a\<close>: the socket is opened with
  \<open>net.connect(this._params.defaultPort, host)\<close>; \<open>cb\<close> waits for the socket's
  \<open>error\<close> or \<open>connect\<close>.
\<close>

definition connectTCP :: "nat \<Rightarrow> string option \<Rightarrow> jsval \<Rightarrow> peer_group \<Rightarrow> peer_group" where
  "connectTCP a host port' w =
     setStage a Dialing
       (call (SocketSetTimeout (10 * 1000)) (call (NetConnect (defaultPort (params w)) host) w))"

text \<open>
  \<open>_connectDNSPeer(cb)\<close>: a random seed is handed to \<open>dns.resolve\<close>. Drawing from
  an absent list throws.
\<close>

definition connectDNSPeer :: "nat \<Rightarrow> peer_group \<Rightarrow> peer_group option" where
  "connectDNSPeer a w =
     (case dnsSeeds (params w) of
        None \<Rightarrow> None
      | Some seeds \<Rightarrow>
          let (seed, w1) = getRandom seeds w
          in Some (setStage a Resolving (call (DnsResolve seed) w1)))"

text \<open>
  \<open>_connectStaticPeer(cb)\<close>: a random entry of \<open>staticPeers\<close> is parsed and dialled.
  Parsing \<open>undefined\<close> (an empty or absent list) throws.
\<close>

definition connectStaticPeer :: "nat \<Rightarrow> peer_group \<Rightarrow> peer_group option" where
  "connectStaticPeer a w =
     (case staticPeers (params w) of
        None \<Rightarrow> None
      | Some ps \<Rightarrow>
          let (address, w1) = getRandom ps w
          in (case address of
                None \<Rightarrow> None
              | Some addr \<Rightarrow>
                  let peer = parseAddress addr
                  in Some (connectTCP a (Some (hostname peer)) (port peer) w1)))"

text \<open>Calling the selected method \<open>getPeer\<close> with the callback of attempt \<open>a\<close>.\<close>

fun getPeer :: "discovery \<Rightarrow> nat \<Rightarrow> peer_group \<Rightarrow> peer_group option" where
  "getPeer DnsSeed a w = connectDNSPeer a w"
| "getPeer StaticList a w = connectStaticPeer a w"
| "getPeer OverlayExchange a w = Some (setStage a Waiting (call ExchangeGetNewPeer w))"
| "getPeer CustomHook a w = Some (setStage a Waiting (call ParamsGetNewPeer w))"

section \<open>Connection attempts\<close>

text \<open>The array \<open>getPeerArray\<close> that \<open>_connectPeer\<close> builds, in its order.\<close>

definition nonEmpty :: "'a list option \<Rightarrow> bool" where
  "nonEmpty xs = (case xs of None \<Rightarrow> False | Some ys \<Rightarrow> length ys > 0)"

definition getPeerArray :: "peer_group \<Rightarrow> discovery list" where
  "getPeerArray w =
     (if \<not> browser w
      then (if nonEmpty (dnsSeeds (params w)) then [DnsSeed] else []) @
           (if nonEmpty (staticPeers (params w)) then [StaticList] else [])
      else []) @
     (if connectWeb w \<and> exchangePeers w > 0 then [OverlayExchange] else []) @
     (if getNewPeer (params w) then [CustomHook] else [])"

text \<open>
  The part of \<open>_connectPeer\<close> after the array is known to be non-empty: a method is
  drawn; with a falsy \<open>connectTimeout\<close> it is called with \<open>_onConnection\<close> itself as
  callback (no timer), otherwise a timer is set and the method is called with the
  guarded callback.
\<close>

definition startAttempt :: "peer_group \<Rightarrow> peer_group option" where
  "startAttempt w =
     (let (m, w1) = getRandom (getPeerArray w) w
      in (case m of
            None \<Rightarrow> None
          | Some m' \<Rightarrow>
              let a = length (attempts w1);
                  t = (if connectTimeout w1 = 0 then NoTimer else Armed);
                  w2 = w1\<lparr>attempts := attempts w1 @
                         [\<lparr>a_method = m', a_timeout = t, timedOut = False, a_stage = Waiting\<rparr>]\<rparr>
              in getPeer m' a w2))"

text \<open>
  \<open>_connectPeer\<close>. With an empty array it calls \<open>_onConnection\<close> with the error
  \<open>No methods available to get new peers\<close>, which emits \<open>connectError\<close> and, while
  \<open>connecting\<close>, calls \<open>_connectPeer\<close> again at once (the two functions call each
  other; the error branch of \<open>_onConnection\<close> is written out here).
\<close>

partial_function (option) connectPeer :: "peer_group \<Rightarrow> peer_group option" where
  "connectPeer w =
     (if getPeerArray w = []
      then (let w1 = emit (EvConnectError NoMethodsAvailable None) w
            in if connecting w1 then connectPeer w1 else Some w1)
      else startAttempt w)"

declare connectPeer.simps [code]

text \<open>
  \<open>_onConnection(err, socket)\<close>: an error is reported and, while \<open>connecting\<close>,
  followed by a new attempt; a socket is wrapped in a new peer, on which \<open>onError\<close>
  (for \<open>error\<close> and \<open>disconnect\<close>) and the \<open>ready\<close> listener are attached.
\<close>

definition onConnection :: "error option \<Rightarrow> peer_group \<Rightarrow> peer_group option" where
  "onConnection err w =
     (case err of
        Some e \<Rightarrow>
          (let w1 = emit (EvConnectError e None) w
           in if connecting w1 then connectPeer w1 else Some w1)
      | None \<Rightarrow>
          (let p = Own (created w);
               w1 = call (NewPeer p) (w\<lparr>created := created w + 1\<rparr>)
           in Some (w1\<lparr>peerObjs := (peerObjs w1)
                      (p := (peerObjs w1 p)\<lparr>onErrorAttached := True, readyAttached := True\<rparr>)\<rparr>)))"

text \<open>\<open>_fillPeers\<close>: \<open>n\<close> is computed once, then \<open>_connectPeer\<close> is called \<open>n\<close> times.\<close>

definition fillPeers :: "peer_group \<Rightarrow> peer_group option" where
  "fillPeers w =
     (let n = int (numPeers w) - int (length (peers w))
      in times (nat n) connectPeer w)"

text \<open>
  The timer callback of attempt \<open>a\<close>, and the callback that \<open>_connectPeer\<close> hands to
  the method (\<open>_onConnection\<close> itself when no timer was set).
\<close>

definition onTimeout :: "nat \<Rightarrow> peer_group \<Rightarrow> peer_group option" where
  "onTimeout a w =
     (let w1 = w\<lparr>attempts := (attempts w)[a := (attempts w ! a)\<lparr>timedOut := True\<rparr>]\<rparr>;
          w2 = emit (EvConnectError ConnectionTimedOut None) w1
      in if connecting w2 then connectPeer w2 else Some w2)"

definition attemptCb :: "nat \<Rightarrow> error option \<Rightarrow> peer_group \<Rightarrow> peer_group option" where
  "attemptCb a err w =
     (if a_timeout (attempts w ! a) = NoTimer then onConnection err w
      else if timedOut (attempts w ! a) then Some w
      else onConnection err
             (w\<lparr>attempts := (attempts w)[a := (attempts w ! a)\<lparr>a_timeout := Cleared\<rparr>]\<rparr>))"

section \<open>Admission and removal\<close>

definition updPeer :: "peer_ref \<Rightarrow> (peer_obj \<Rightarrow> peer_obj) \<Rightarrow> peer_group \<Rightarrow> peer_group" where
  "updPeer p f w = w\<lparr>peerObjs := (peerObjs w)(p := f (peerObjs w p))\<rparr>"

text \<open>
  The \<open>onPeer\<close> closures of \<open>connect\<close>, called in turn when \<open>peer\<close> is emitted: each
  counts up its \<open>i\<close>; below \<open>nSeeds\<close> it stays registered, otherwise it removes
  itself and calls \<open>_fillPeers\<close>. The result is the closures still registered and
  the state.
\<close>

fun onPeer :: "(nat \<times> nat) list \<Rightarrow> peer_group \<Rightarrow> ((nat \<times> nat) list \<times> peer_group) option" where
  "onPeer [] w = Some ([], w)"
| "onPeer ((i, nSeeds) # ls) w =
     (if i + 1 < nSeeds
      then (case onPeer ls w of
              None \<Rightarrow> None
            | Some (ks, w') \<Rightarrow> Some ((i + 1, nSeeds) # ks, w'))
      else (case fillPeers w of
              None \<Rightarrow> None
            | Some w1 \<Rightarrow> onPeer ls w1))"

text \<open>\<open>this.emit('peer', peer)\<close>.\<close>

definition emitPeer :: "peer_ref \<Rightarrow> peer_group \<Rightarrow> peer_group option" where
  "emitPeer p w =
     (case onPeer (onPeerListeners w) (emit (EvPeer p) w) of
        None \<Rightarrow> None
      | Some (ks, w') \<Rightarrow> Some (w'\<lparr>onPeerListeners := ks\<rparr>))"

text \<open>
  \<open>addPeer(peer)\<close>. For a peer that is not ready a callback is queued with
  \<open>_onceReady\<close>, and the function goes on: the peer is pushed, under \<open>hardLimit\<close> the
  front peer is shifted out and told to disconnect when the length exceeds
  \<open>_numPeers\<close>, the \<open>disconnect\<close> and \<open>error\<close> listeners are registered, and \<open>peer\<close>
  is emitted. (\<open>shift\<close> on an empty array would give \<open>undefined\<close>, and the call on
  it would throw.)
\<close>

definition addPeer :: "peer_ref \<Rightarrow> peer_group \<Rightarrow> peer_group option" where
  "addPeer p w =
     (let w0 = (if \<not> ready (peerObjs w p)
                then updPeer p (\<lambda>po. po\<lparr>onceReadyCbs := onceReadyCbs po + 1\<rparr>) w
                else w);
          w1 = w0\<lparr>peers := peers w0 @ [p]\<rparr>
      in (case (if hardLimit w1 \<and> length (peers w1) > numPeers w1
                then (case peers w1 of
                        [] \<Rightarrow> None
                      | disconnectPeer # rest \<Rightarrow>
                          Some (call (PeerDisconnectCall disconnectPeer) (w1\<lparr>peers := rest\<rparr>)))
                else Some w1) of
            None \<Rightarrow> None
          | Some w2 \<Rightarrow>
              emitPeer p
                (updPeer p (\<lambda>po. po\<lparr>disconnectHandlers := disconnectHandlers po + 1,
                                     errorHandlers := errorHandlers po + 1\<rparr>) w2)))"

text \<open>The \<open>once('disconnect')\<close> listener that \<open>addPeer\<close> registers on \<open>peer\<close>.\<close>

definition onPeerDisconnect :: "peer_ref \<Rightarrow> peer_group \<Rightarrow> peer_group option" where
  "onPeerDisconnect p w =
     (let index = indexOf (peers w) p;
          w1 = w\<lparr>peers := splice1 index (peers w)\<rparr>
      in (case (if connecting w1 then fillPeers w1 else Some w1) of
            None \<Rightarrow> None
          | Some w2 \<Rightarrow> Some (emit (EvDisconnect p) w2)))"

text \<open>The \<open>on('error')\<close> listener that \<open>addPeer\<close> registers on \<open>peer\<close>.\<close>

definition onPeerError :: "peer_ref \<Rightarrow> error option \<Rightarrow> peer_group \<Rightarrow> peer_group option" where
  "onPeerError p err w = Some (call (PeerDisconnectCall p) (emit (EvPeerError err) w))"

text \<open>
  \<open>onError\<close> of \<open>_onConnection\<close>, for \<open>error\<close> and \<open>disconnect\<close> before admission.
\<close>

definition onError :: "peer_ref \<Rightarrow> error option \<Rightarrow> peer_group \<Rightarrow> peer_group option" where
  "onError p err w =
     (let e = (case err of None \<Rightarrow> ConnectionError | Some e' \<Rightarrow> e');
          w1 = updPeer p (\<lambda>po. po\<lparr>onErrorAttached := False\<rparr>) w;
          w2 = emit (EvConnectError e (Some p)) w1
      in if connecting w2 then connectPeer w2 else Some w2)"

text \<open>The \<open>once('ready')\<close> listener of \<open>_onConnection\<close>.\<close>

definition onReady :: "peer_ref \<Rightarrow> peer_group \<Rightarrow> peer_group option" where
  "onReady p w = addPeer p (updPeer p (\<lambda>po. po\<lparr>onErrorAttached := False\<rparr>) w)"

section \<open>Start and stop\<close>

text \<open>
  \<open>_connectWebSeeds\<close>: every seed is dialled through the exchange; a string seed is
  parsed first and becomes a \<open>websocket\<close> seed.
\<close>

fun connectWebSeeds :: "web_seed list \<Rightarrow> peer_group \<Rightarrow> peer_group" where
  "connectWebSeeds [] w = w"
| "connectWebSeeds (SeedString seed # ss) w =
     (let url = parseAddress seed;
          port' = jsOr (jsOr (port url) (defaultWebPort (params w))) (JNum DEFAULT_PXP_PORT)
      in connectWebSeeds ss (call (ExchangeConnect ''websocket'' (hostname url) port') w))"
| "connectWebSeeds (SeedSpec transport addr opts # ss) w =
     connectWebSeeds ss (call (ExchangeConnect transport addr opts) w)"

text \<open>\<open>connect()\<close>.\<close>

definition connect :: "peer_group \<Rightarrow> peer_group option" where
  "connect w =
     (let w1 = w\<lparr>connecting := True\<rparr>
      in (case webSeeds (params w1) of
            Some (s # ss) \<Rightarrow>
              (let nSeeds = min (min (length (s # ss)) (numPeers w1 div 2)) 1;
                   w2 = w1\<lparr>onPeerListeners := onPeerListeners w1 @ [(0, nSeeds)]\<rparr>
               in Some (connectWebSeeds (s # ss) w2))
          | _ \<Rightarrow> fillPeers w1))"

text \<open>\<open>disconnect()\<close>.\<close>

definition disconnect :: "peer_group \<Rightarrow> peer_group" where
  "disconnect w =
     (let w1 = w\<lparr>connecting := False\<rparr>
      in w1\<lparr>calls := calls w1 @ map PeerDisconnectCall (peers w1)\<rparr>)"

section \<open>What can happen to a pool\<close>

text \<open>
  The calls of the public operations, and the callbacks the runtime and the
  collaborators deliver: a timer fires, \<open>dns.resolve\<close> answers, a socket emits
  \<open>error\<close> or \<open>connect\<close>, an outside discovery method answers, the exchange answers
  a seed dial or announces a peer (incoming or not) or changes its \<open>peers\<close>, a peer
  object emits \<open>ready\<close>, \<open>error\<close> or \<open>disconnect\<close>. The classes of the
  collaborators (\<open>Peer\<close>, the exchange, sockets) are not part of \<open>peerGroup.js\<close>:
  a call the pool makes on one of them is recorded in \<open>calls\<close>, and whatever the
  collaborator emits in answer reaches the pool as an event of its own.
\<close>

datatype event =
    CallConnect
  | CallDisconnect
  | CallAddPeer peer_ref
  | TimerFires nat
  | DnsAnswer nat "error option" "string list"
  | SocketError nat error
  | SocketConnect nat
  | MethodAnswer nat "error option"
  | SeedAnswer "error option"
  | ExchangePeer bool
  | ExchangePeers nat
  | PeerReady peer_ref
  | PeerError peer_ref "error option"
  | PeerDisconnect peer_ref "error option"

text \<open>
  Modelled from the spec: the class \<open>Peer\<close> (\<open>peer.js\<close>) is not among the sources;
  the spec gives a peer a \<open>ready\<close> boolean, a registration to run a callback once
  the peer becomes ready, and the events \<open>error\<close>, \<open>disconnect\<close> and \<open>ready\<close>.
  When a peer emits \<open>ready\<close>, its flag is set, the \<open>once('ready')\<close> listener of
  \<open>_onConnection\<close> runs if attached, then the callbacks queued by \<open>addPeer\<close>.
\<close>

definition peerReady :: "peer_ref \<Rightarrow> peer_group \<Rightarrow> peer_group option" where
  "peerReady p w =
     (let po = peerObjs w p;
          w1 = updPeer p (\<lambda>po. po\<lparr>ready := True, readyAttached := False, onceReadyCbs := 0\<rparr>) w
      in (case (if readyAttached po then onReady p w1 else Some w1) of
            None \<Rightarrow> None
          | Some w2 \<Rightarrow> times (onceReadyCbs po) (addPeer p) w2))"

text \<open>
  A peer emits \<open>error\<close>: \<open>onError\<close> runs if attached, then every \<open>error\<close> listener of
  \<open>addPeer\<close>.
\<close>

definition peerError :: "peer_ref \<Rightarrow> error option \<Rightarrow> peer_group \<Rightarrow> peer_group option" where
  "peerError p err w =
     (let po = peerObjs w p
      in (case (if onErrorAttached po then onError p err w else Some w) of
            None \<Rightarrow> None
          | Some w1 \<Rightarrow> times (errorHandlers po) (onPeerError p err) w1))"

text \<open>
  A peer emits \<open>disconnect\<close>: \<open>onError\<close> runs if attached, then every
  \<open>once('disconnect')\<close> listener of \<open>addPeer\<close>, each of them once.
\<close>

definition peerDisconnect :: "peer_ref \<Rightarrow> error option \<Rightarrow> peer_group \<Rightarrow> peer_group option" where
  "peerDisconnect p err w =
     (let po = peerObjs w p;
          w0 = updPeer p (\<lambda>po. po\<lparr>disconnectHandlers := 0\<rparr>) w
      in (case (if onErrorAttached po then onError p err w0 else Some w0) of
            None \<Rightarrow> None
          | Some w1 \<Rightarrow> times (disconnectHandlers po) (onPeerDisconnect p) w1))"

text \<open>
  One event. A callback is delivered only where the object that delivers it is in
  the state to do so: a timer fires only while pending, a method answers only while
  it is awaited.
\<close>

fun step :: "event \<Rightarrow> peer_group \<Rightarrow> peer_group option" where
  "step CallConnect w = connect w"
| "step CallDisconnect w = Some (disconnect w)"
| "step (CallAddPeer p) w = addPeer p w"
| "step (TimerFires a) w =
     (if a < length (attempts w) \<and> a_timeout (attempts w ! a) = Armed
      then onTimeout a (w\<lparr>attempts := (attempts w)[a := (attempts w ! a)\<lparr>a_timeout := Fired\<rparr>]\<rparr>)
      else Some w)"
| "step (DnsAnswer a err addresses) w =
     (if a < length (attempts w) \<and> a_stage (attempts w ! a) = Resolving
      then (case err of
              Some e \<Rightarrow> attemptCb a (Some e) (setStage a Completed w)
            | None \<Rightarrow>
                let (address, w1) = getRandom addresses w
                in Some (connectTCP a address (defaultPort (params w1)) w1))
      else Some w)"
| "step (SocketError a e) w =
     (if a < length (attempts w) \<and> a_stage (attempts w ! a) = Dialing
      then attemptCb a (Some e) (setStage a Completed w)
      else Some w)"
| "step (SocketConnect a) w =
     (if a < length (attempts w) \<and> a_stage (attempts w ! a) = Dialing
      then attemptCb a None (setStage a Completed w)
      else Some w)"
| "step (MethodAnswer a err) w =
     (if a < length (attempts w) \<and> a_stage (attempts w ! a) = Waiting
      then attemptCb a err (setStage a Completed w)
      else Some w)"
| "step (SeedAnswer err) w = onConnection err w"
| "step (ExchangePeer incoming) w = (if \<not> incoming then Some w else onConnection None w)"
| "step (ExchangePeers n) w = Some (w\<lparr>exchangePeers := n\<rparr>)"
| "step (PeerReady p) w = peerReady p w"
| "step (PeerError p err) w = peerError p err w"
| "step (PeerDisconnect p err) w = peerDisconnect p err w"

text \<open>A sequence of events, from left to right.\<close>

fun run :: "event list \<Rightarrow> peer_group \<Rightarrow> peer_group option" where
  "run [] w = Some w"
| "run (e # es) w = (case step e w of None \<Rightarrow> None | Some w' \<Rightarrow> run es w')"

section \<open>Scenarios\<close>

text \<open>
  Constructing a pool and delivering events to it; \<open>None\<close> when the constructor
  throws or a call does not return.
\<close>

definition scenario :: "error + peer_group \<Rightarrow> event list \<Rightarrow> peer_group option" where
  "scenario c es = (case c of Inl _ \<Rightarrow> None | Inr w \<Rightarrow> run es w)"

text \<open>
  Parameters with the three required fields and nothing else; the same with one
  static peer, whose port differs from \<open>defaultPort\<close>; the same with one overlay
  seed as well.
\<close>

definition base_params :: net_params where
  "base_params = \<lparr>net_id = JStr ''main'', magic = JNum 3652501241, defaultPort = JNum 8333,
     defaultWebPort = JUndefined, protocolVersion = JUndefined, dnsSeeds = None,
     staticPeers = None, webSeeds = None, getNewPeer = False\<rparr>"

definition static_params :: net_params where
  "static_params = base_params\<lparr>staticPeers := Some [''10.0.0.1:18333'']\<rparr>"

definition seeded_params :: net_params where
  "seeded_params = static_params\<lparr>webSeeds := Some [SeedString ''seed.example:8192'']\<rparr>"

definition port_zero_params :: net_params where
  "port_zero_params = base_params\<lparr>defaultPort := JNum 0\<rparr>"

definition empty_id_params :: net_params where
  "empty_id_params = base_params\<lparr>net_id := JStr []\<rparr>"

definition no_opts :: pool_opts where
  "no_opts = \<lparr>opt_numPeers = None, opt_hardLimit = None, opt_connectWeb = None,
     opt_connectTimeout = None, opt_handshakeTimeout = None\<rparr>"

text \<open>Pools with one static peer configured, wanting one peer and three peers.\<close>

definition one_static_pool :: "error + peer_group" where
  "one_static_pool =
     PeerGroup False [] (Some static_params) (Some (no_opts\<lparr>opt_numPeers := Some 1\<rparr>))"

definition three_static_pool :: "error + peer_group" where
  "three_static_pool =
     PeerGroup False [] (Some static_params) (Some (no_opts\<lparr>opt_numPeers := Some 3\<rparr>))"

text \<open>\<open>{numPeers: 2, hardLimit: true}\<close>, and three ready peers A, B, C added in turn.\<close>

definition hard2_opts :: pool_opts where
  "hard2_opts = no_opts\<lparr>opt_numPeers := Some 2, opt_hardLimit := Some True\<rparr>"

definition admitABC :: "event list" where
  "admitABC = [PeerReady (Ext 0), CallAddPeer (Ext 0), PeerReady (Ext 1), CallAddPeer (Ext 1),
     PeerReady (Ext 2), CallAddPeer (Ext 2)]"

section \<open>Observations used in the statements\<close>

text \<open>
  The peers on which \<open>disconnect()\<close> was called, in the order of the calls.
\<close>

fun disconnected :: "io list \<Rightarrow> peer_ref list" where
  "disconnected [] = []"
| "disconnected (PeerDisconnectCall p # cs) = p # disconnected cs"
| "disconnected (c # cs) = disconnected cs"

text \<open>
  What a started connection attempt leaves as it is: everything but the attempts
  (which only get longer), the random supply, what was emitted, and calls other than
  \<open>peer.disconnect()\<close>.
\<close>

definition quiet :: "peer_group \<Rightarrow> peer_group \<Rightarrow> bool" where
  "quiet w w' \<longleftrightarrow>
     params w' = params w \<and> numPeers w' = numPeers w \<and> peers w' = peers w \<and>
     hardLimit w' = hardLimit w \<and> connectWeb w' = connectWeb w \<and>
     connectTimeout w' = connectTimeout w \<and> connecting w' = connecting w \<and>
     browser w' = browser w \<and> exchangePeers w' = exchangePeers w \<and>
     onPeerListeners w' = onPeerListeners w \<and> peerObjs w' = peerObjs w \<and>
     created w' = created w \<and> (\<exists>xs. attempts w' = attempts w @ xs) \<and>
     disconnected (calls w') = disconnected (calls w)"

text \<open>
  How the closure variables of one attempt can change: \<open>timedOut\<close> is never
  reset, a timer that is no longer pending never becomes pending again, and whether a
  timer was set at all does not change.
\<close>

definition later :: "attempt \<Rightarrow> attempt \<Rightarrow> bool" where
  "later x y \<longleftrightarrow>
     (timedOut x \<longrightarrow> timedOut y) \<and> (a_timeout x \<noteq> Armed \<longrightarrow> a_timeout y \<noteq> Armed) \<and>
     (a_timeout x = NoTimer) = (a_timeout y = NoTimer)"

text \<open>
  How the list of attempts can change: none is removed, and each changes as above.
\<close>

definition grown :: "attempt list \<Rightarrow> attempt list \<Rightarrow> bool" where
  "grown xs ys \<longleftrightarrow> length xs \<le> length ys \<and> (\<forall>a<length xs. later (xs ! a) (ys ! a))"

text \<open>
  What every operation keeps: the configured size and limit, the history of the
  attempts, and, under \<open>hardLimit\<close>, a peer set within \<open>numPeers\<close>.
\<close>

definition keeps :: "peer_group \<Rightarrow> peer_group \<Rightarrow> bool" where
  "keeps w w' \<longleftrightarrow>
     numPeers w' = numPeers w \<and> hardLimit w' = hardLimit w \<and>
     grown (attempts w) (attempts w') \<and>
     (hardLimit w \<longrightarrow> length (peers w) \<le> numPeers w \<longrightarrow> length (peers w') \<le> numPeers w)"

text \<open>
  The attempt whose discovery method an event belongs to.
\<close>

fun answers :: "event \<Rightarrow> nat option" where
  "answers (DnsAnswer a err addresses) = Some a"
| "answers (SocketError a e) = Some a"
| "answers (SocketConnect a) = Some a"
| "answers (MethodAnswer a err) = Some a"
| "answers e = None"

text \<open>
  The peers for which \<open>peer\<close> was emitted, in the order of admission.
\<close>

fun admitted :: "emitted list \<Rightarrow> peer_ref list" where
  "admitted [] = []"
| "admitted (EvPeer p # es) = p # admitted es"
| "admitted (e # es) = admitted es"

text \<open>
  The peer set lists its members in the order of their admission: it is what is
  left of the admission history after removals. Its front peer is then the one
  admitted earliest among its members.
\<close>

definition inOrder :: "peer_group \<Rightarrow> bool" where
  "inOrder w \<longleftrightarrow> subseq (peers w) (admitted (emitted w))"

text \<open>
  What every operation other than an admission does to the peer set and to the
  admission history: entries are only removed, and no \<open>peer\<close> event is emitted.
\<close>

definition calm :: "peer_group \<Rightarrow> peer_group \<Rightarrow> bool" where
  "calm w w' \<longleftrightarrow>
     subseq (peers w') (peers w) \<and> (\<exists>es. emitted w' = emitted w @ es \<and> admitted es = [])"

section \<open>Evaluating the model\<close>

lemmas model_defs =
  scenario_def PeerGroup_def assertParams_def orDefault_def base_params_def no_opts_def
  connect_def disconnect_def fillPeers_def startAttempt_def
  getPeerArray_def nonEmpty_def getRandom_def connectStaticPeer_def connectDNSPeer_def
  connectTCP_def setStage_def call_def emit_def parseAddress_def onConnection_def
  attemptCb_def onTimeout_def addPeer_def emitPeer_def updPeer_def freshPeer_def
  peerReady_def peerError_def peerDisconnect_def onReady_def onError_def onPeerError_def
  onPeerDisconnect_def splice1_def jsOr_def DEFAULT_PXP_PORT_def Let_def

lemma times_unfold:
  "times n f w =
     (if n = 0 then Some w else case f w of None \<Rightarrow> None | Some w' \<Rightarrow> times (n - 1) f w')"
  by (cases n) (auto split: option.splits)

section \<open>\<open>_connectPeer\<close> with and without discovery methods\<close>

lemma getPeerArray_emit [simp]: "getPeerArray (emit e w) = getPeerArray w"
  by (simp add: getPeerArray_def emit_def)

lemma connecting_emit [simp]: "connecting (emit e w) = connecting w"
  by (simp add: emit_def)

lemma connectPeer_methods: "getPeerArray w \<noteq> [] \<Longrightarrow> connectPeer w = startAttempt w"
  by (subst connectPeer.simps) simp

lemma connectPeer_idle:
  "getPeerArray w = [] \<Longrightarrow> \<not> connecting w \<Longrightarrow>
   connectPeer w = Some (emit (EvConnectError NoMethodsAvailable None) w)"
  by (subst connectPeer.simps) simp

text \<open>
  While \<open>connecting\<close>, a call with no method available does not return: every
  unfolding emits the error and calls again in the same situation.
\<close>

lemma connectPeer_Some_not_stuck:
  assumes "connectPeer w = Some w'"
  shows "\<not> (getPeerArray w = [] \<and> connecting w)"
proof (rule connectPeer.raw_induct
    [where P = "\<lambda>w w'. \<not> (getPeerArray w = [] \<and> connecting w)", OF _ assms])
  fix f :: "peer_group \<Rightarrow> peer_group option" and v v'
  assume IH: "\<And>x y. f x = Some y \<Longrightarrow> \<not> (getPeerArray x = [] \<and> connecting x)"
  assume body: "(if getPeerArray v = []
      then let w1 = emit (EvConnectError NoMethodsAvailable None) v
           in if connecting w1 then f w1 else Some w1
      else startAttempt v) = Some v'"
  show "\<not> (getPeerArray v = [] \<and> connecting v)"
  proof
    assume stuck: "getPeerArray v = [] \<and> connecting v"
    with body have "f (emit (EvConnectError NoMethodsAvailable None) v) = Some v'"
      by (simp add: Let_def)
    from IH [OF this] stuck show False by simp
  qed
qed

lemma connectPeer_stuck:
  "getPeerArray w = [] \<Longrightarrow> connecting w \<Longrightarrow> connectPeer w = None"
  using connectPeer_Some_not_stuck [of w] by (cases "connectPeer w") auto

section \<open>What the operations keep\<close>

lemma disconnected_append [simp]:
  "disconnected (xs @ ys) = disconnected xs @ disconnected ys"
  by (induction xs rule: disconnected.induct) simp_all

lemma quiet_refl [simp]: "quiet w w"
  by (simp add: quiet_def)

lemma quiet_trans: "quiet w w1 \<Longrightarrow> quiet w1 w2 \<Longrightarrow> quiet w w2"
  by (auto simp: quiet_def)

lemma quiet_getPeerArray: "quiet w w' \<Longrightarrow> getPeerArray w' = getPeerArray w"
  by (simp add: quiet_def getPeerArray_def)

lemma quiet_emit [simp]: "quiet w (emit e w)"
  by (simp add: quiet_def emit_def)

lemma getPeer_quiet:
  assumes "getPeer m (length (attempts w)) (w\<lparr>attempts := attempts w @ [x]\<rparr>) = Some w'"
  shows "quiet w w' \<and> emitted w' = emitted w \<and> length (attempts w') = Suc (length (attempts w))
    \<and> a_timeout (attempts w' ! length (attempts w)) = a_timeout x
    \<and> timedOut (attempts w' ! length (attempts w)) = timedOut x"
  using assms
  by (cases m)
     (auto simp: quiet_def connectDNSPeer_def connectStaticPeer_def connectTCP_def setStage_def
        call_def getRandom_def Let_def split: option.splits if_splits)

lemma startAttempt_quiet:
  assumes "startAttempt w = Some w'"
  shows "quiet w w' \<and> emitted w' = emitted w \<and> length (attempts w') = Suc (length (attempts w))
    \<and> a_timeout (attempts w' ! length (attempts w)) = (if connectTimeout w = 0 then NoTimer else Armed)
    \<and> \<not> timedOut (attempts w' ! length (attempts w))"
proof -
  obtain m w1 where g: "getRandom (getPeerArray w) w = (m, w1)"
    by (cases "getRandom (getPeerArray w) w")
  then have w1: "w1 = w\<lparr>rnd := tl (rnd w)\<rparr>"
    by (auto simp: getRandom_def Let_def)
  from assms g obtain m' where m': "m = Some m'"
    by (cases m) (auto simp: startAttempt_def)
  let ?x = "\<lparr>a_method = m', a_timeout = (if connectTimeout w1 = 0 then NoTimer else Armed),
             timedOut = False, a_stage = Waiting\<rparr>"
  from assms g m' have "getPeer m' (length (attempts w1)) (w1\<lparr>attempts := attempts w1 @ [?x]\<rparr>) = Some w'"
    by (simp add: startAttempt_def Let_def)
  from getPeer_quiet [OF this] have "quiet w1 w' \<and> emitted w' = emitted w1 \<and>
      length (attempts w') = Suc (length (attempts w1)) \<and>
      a_timeout (attempts w' ! length (attempts w1)) = a_timeout ?x \<and>
      timedOut (attempts w' ! length (attempts w1)) = timedOut ?x" .
  moreover have "quiet w w1" by (simp add: w1 quiet_def)
  ultimately show ?thesis
    using w1 by (auto intro: quiet_trans)
qed

lemma connectPeer_cases:
  assumes "connectPeer w = Some w'"
  shows "(getPeerArray w \<noteq> [] \<and> startAttempt w = Some w') \<or>
         (getPeerArray w = [] \<and> \<not> connecting w \<and> w' = emit (EvConnectError NoMethodsAvailable None) w)"
proof (cases "getPeerArray w = []")
  case True
  with connectPeer_Some_not_stuck [OF assms] have nc: "\<not> connecting w" by simp
  with True assms show ?thesis by (simp add: connectPeer_idle)
next
  case False
  with assms show ?thesis by (simp add: connectPeer_methods)
qed

lemma connectPeer_quiet: "connectPeer w = Some w' \<Longrightarrow> quiet w w'"
  by (auto dest!: connectPeer_cases dest: startAttempt_quiet)

lemma connectPeer_connecting:
  "connecting w \<Longrightarrow> connectPeer w = Some w' \<Longrightarrow> startAttempt w = Some w'"
  by (auto dest!: connectPeer_cases)

lemma times_quiet:
  assumes "\<And>v v'. f v = Some v' \<Longrightarrow> quiet v v'"
  shows "times n f w = Some w' \<Longrightarrow> quiet w w'"
proof (induction n arbitrary: w)
  case 0
  then show ?case by simp
next
  case (Suc n)
  then show ?case
    by (auto split: option.splits dest: assms intro: quiet_trans)
qed

lemma fillPeers_quiet: "fillPeers w = Some w' \<Longrightarrow> quiet w w'"
  unfolding fillPeers_def Let_def by (rule times_quiet [OF connectPeer_quiet])

lemma times_connectPeer_count:
  "connecting w \<Longrightarrow> times n connectPeer w = Some w' \<Longrightarrow>
   length (attempts w') = length (attempts w) + n \<and> emitted w' = emitted w"
proof (induction n arbitrary: w)
  case 0
  then show ?case by simp
next
  case (Suc n)
  from Suc.prems obtain w1 where w1: "connectPeer w = Some w1" and r: "times n connectPeer w1 = Some w'"
    by (auto split: option.splits)
  from connectPeer_connecting [OF Suc.prems(1) w1] have s: "startAttempt w = Some w1" .
  from startAttempt_quiet [OF s] have q: "quiet w w1" "emitted w1 = emitted w"
    "length (attempts w1) = Suc (length (attempts w))" by simp_all
  from q(1) Suc.prems(1) have "connecting w1" by (simp add: quiet_def)
  from Suc.IH [OF this r] q show ?case by simp
qed

lemma startAttempt_returns:
  assumes "getPeerArray w \<noteq> []"
  shows "\<exists>w'. startAttempt w = Some w'"
proof -
  let ?r = "(case rnd w of [] \<Rightarrow> 0 | n # _ \<Rightarrow> n) mod length (getPeerArray w)"
  let ?m = "getPeerArray w ! ?r"
  from assms have "?m \<in> set (getPeerArray w)" by simp
  then have elig: "(?m = DnsSeed \<longrightarrow> nonEmpty (dnsSeeds (params w))) \<and>
      (?m = StaticList \<longrightarrow> nonEmpty (staticPeers (params w)))"
    by (auto simp: getPeerArray_def split: if_splits)
  show ?thesis
    using assms elig
    by (cases ?m)
       (auto simp: startAttempt_def getRandom_def Let_def connectDNSPeer_def
          connectStaticPeer_def nonEmpty_def split: option.splits)
qed

lemma times_connectPeer_returns:
  "getPeerArray w \<noteq> [] \<Longrightarrow> \<exists>w'. times n connectPeer w = Some w'"
proof (induction n arbitrary: w)
  case 0
  then show ?case by simp
next
  case (Suc n)
  from startAttempt_returns [OF Suc.prems] obtain w1 where s: "startAttempt w = Some w1" ..
  with Suc.prems have c: "connectPeer w = Some w1" by (simp add: connectPeer_methods)
  from startAttempt_quiet [OF s] have "getPeerArray w1 = getPeerArray w"
    by (simp add: quiet_getPeerArray)
  with Suc.prems have "getPeerArray w1 \<noteq> []" by simp
  from Suc.IH [OF this] c show ?case by simp
qed

lemma later_refl [simp]: "later x x"
  by (simp add: later_def)

lemma later_trans: "later x y \<Longrightarrow> later y z \<Longrightarrow> later x z"
  by (auto simp: later_def)

lemma grown_refl [simp]: "grown xs xs"
  by (simp add: grown_def)

lemma grown_trans: "grown xs ys \<Longrightarrow> grown ys zs \<Longrightarrow> grown xs zs"
  unfolding grown_def by (meson later_trans le_trans less_le_trans)

lemma grown_append [simp]: "grown xs (xs @ ys)"
  by (simp add: grown_def nth_append)

lemma grown_update:
  assumes "a < length xs \<Longrightarrow> later (xs ! a) y"
  shows "grown xs (xs[a := y])"
  unfolding grown_def
proof (intro conjI allI impI)
  show "length xs \<le> length (xs[a := y])" by simp
next
  fix b assume b: "b < length xs"
  show "later (xs ! b) (xs[a := y] ! b)"
  proof (cases "b = a")
    case True
    with b assms show ?thesis by simp
  next
    case False
    then show ?thesis by simp
  qed
qed

lemma keeps_refl [simp]: "keeps w w"
  by (simp add: keeps_def)

lemma keeps_trans: "keeps w w1 \<Longrightarrow> keeps w1 w2 \<Longrightarrow> keeps w w2"
  unfolding keeps_def by (auto intro: grown_trans)

lemma quiet_keeps: "quiet w w' \<Longrightarrow> keeps w w'"
  by (auto simp: quiet_def keeps_def)

lemma keeps_emit [simp]: "keeps w (emit e w)"
  by (simp add: keeps_def emit_def)

lemma keeps_call [simp]: "keeps w (call c w)"
  by (simp add: keeps_def call_def)

lemma keeps_updPeer [simp]: "keeps w (updPeer p f w)"
  by (simp add: keeps_def updPeer_def)

lemma keeps_setStage [simp]: "keeps w (setStage a s w)"
  by (auto simp: keeps_def setStage_def later_def intro!: grown_update)

lemma times_keeps:
  assumes "\<And>v v'. f v = Some v' \<Longrightarrow> keeps v v'"
  shows "times n f w = Some w' \<Longrightarrow> keeps w w'"
proof (induction n arbitrary: w)
  case 0
  then show ?case by simp
next
  case (Suc n)
  then show ?case
    by (auto split: option.splits dest: assms intro: keeps_trans)
qed

lemma connectPeer_keeps: "connectPeer w = Some w' \<Longrightarrow> keeps w w'"
  by (rule quiet_keeps [OF connectPeer_quiet])

lemma fillPeers_keeps: "fillPeers w = Some w' \<Longrightarrow> keeps w w'"
  by (rule quiet_keeps [OF fillPeers_quiet])

lemma chain_keeps:
  "(if connecting w then connectPeer w else Some w) = Some w' \<Longrightarrow> keeps w w'"
  by (auto split: if_splits dest: connectPeer_keeps)

lemma onConnection_keeps: "onConnection err w = Some w' \<Longrightarrow> keeps w w'"
proof (cases err)
  case None
  assume "onConnection err w = Some w'"
  with None show ?thesis
    by (auto simp: onConnection_def Let_def keeps_def call_def)
next
  case (Some e)
  assume "onConnection err w = Some w'"
  with Some have "(if connecting (emit (EvConnectError e None) w)
      then connectPeer (emit (EvConnectError e None) w)
      else Some (emit (EvConnectError e None) w)) = Some w'"
    by (simp add: onConnection_def Let_def)
  from chain_keeps [OF this] show ?thesis
    by (rule keeps_trans [OF keeps_emit])
qed

lemma onTimeout_keeps: "onTimeout a w = Some w' \<Longrightarrow> keeps w w'"
proof -
  let ?w1 = "w\<lparr>attempts := (attempts w)[a := (attempts w ! a)\<lparr>timedOut := True\<rparr>]\<rparr>"
  assume "onTimeout a w = Some w'"
  then have "(if connecting (emit (EvConnectError ConnectionTimedOut None) ?w1)
      then connectPeer (emit (EvConnectError ConnectionTimedOut None) ?w1)
      else Some (emit (EvConnectError ConnectionTimedOut None) ?w1)) = Some w'"
    by (simp add: onTimeout_def Let_def)
  from chain_keeps [OF this] have "keeps (emit (EvConnectError ConnectionTimedOut None) ?w1) w'" .
  moreover have "keeps w ?w1"
    by (auto simp: keeps_def later_def intro!: grown_update)
  ultimately show ?thesis
    by (meson keeps_trans keeps_emit)
qed

lemma attemptCb_keeps: "attemptCb a err w = Some w' \<Longrightarrow> keeps w w'"
proof -
  let ?w1 = "w\<lparr>attempts := (attempts w)[a := (attempts w ! a)\<lparr>a_timeout := Cleared\<rparr>]\<rparr>"
  assume r: "attemptCb a err w = Some w'"
  show ?thesis
  proof (cases "a_timeout (attempts w ! a) = NoTimer")
    case True
    with r show ?thesis by (simp add: attemptCb_def onConnection_keeps)
  next
    case nt: False
    show ?thesis
    proof (cases "timedOut (attempts w ! a)")
      case True
      with nt r show ?thesis by (simp add: attemptCb_def)
    next
      case False
      with nt r have "onConnection err ?w1 = Some w'" by (simp add: attemptCb_def)
      then have "keeps ?w1 w'" by (rule onConnection_keeps)
      moreover from nt have "keeps w ?w1"
        by (auto simp: keeps_def later_def intro!: grown_update)
      ultimately show ?thesis by (rule keeps_trans [rotated])
    qed
  qed
qed

lemma onPeer_keeps: "onPeer ls w = Some (ks, w') \<Longrightarrow> keeps w w'"
proof (induction ls w arbitrary: ks w' rule: onPeer.induct)
  case (1 w)
  then show ?case by simp
next
  case (2 i nSeeds ls w)
  show ?case
  proof (cases "i + 1 < nSeeds")
    case True
    with 2 show ?thesis by (auto split: option.splits)
  next
    case False
    with 2(3) obtain w1 where f: "fillPeers w = Some w1" and r: "onPeer ls w1 = Some (ks, w')"
      by (auto split: option.splits)
    from 2(2) [OF False f r] fillPeers_keeps [OF f] show ?thesis
      by (rule keeps_trans [rotated])
  qed
qed

lemma emitPeer_keeps: "emitPeer p w = Some w' \<Longrightarrow> keeps w w'"
proof -
  assume "emitPeer p w = Some w'"
  then obtain ks v where o: "onPeer (onPeerListeners w) (emit (EvPeer p) w) = Some (ks, v)"
    and w': "w' = v\<lparr>onPeerListeners := ks\<rparr>"
    by (auto simp: emitPeer_def split: option.splits)
  from onPeer_keeps [OF o] have "keeps w v" by (rule keeps_trans [OF keeps_emit])
  moreover have "keeps v w'" by (simp add: w' keeps_def)
  ultimately show ?thesis by (rule keeps_trans)
qed

lemma indexOf_absent: "p \<notin> set xs \<Longrightarrow> indexOf xs p = -1"
  by (induction xs) (auto simp: Let_def)

lemma indexOf_present: "p \<in> set xs \<Longrightarrow> 0 \<le> indexOf xs p \<and> indexOf xs p < int (length xs)"
  by (induction xs) (auto simp: Let_def)

lemma splice1_present: "p \<in> set xs \<Longrightarrow> splice1 (indexOf xs p) xs = remove1 p xs"
proof (induction xs)
  case Nil
  then show ?case by simp
next
  case (Cons y ys)
  show ?case
  proof (cases "y = p")
    case True
    then show ?thesis by (simp add: splice1_def)
  next
    case False
    with Cons.prems have in_ys: "p \<in> set ys" by simp
    from indexOf_present [OF in_ys] have r: "0 \<le> indexOf ys p" "indexOf ys p < int (length ys)"
      by simp_all
    from Cons.IH [OF in_ys] r have "take (nat (indexOf ys p)) ys @ drop (nat (indexOf ys p) + 1) ys = remove1 p ys"
      by (simp add: splice1_def Let_def min_def)
    with False r show ?thesis
      by (simp add: splice1_def Let_def min_def nat_add_distrib)
  qed
qed

lemma splice1_absent: "p \<notin> set xs \<Longrightarrow> splice1 (indexOf xs p) xs = butlast xs"
proof -
  assume "p \<notin> set xs"
  then have i: "indexOf xs p = -1" by (rule indexOf_absent)
  show ?thesis
  proof (cases "xs = []")
    case True
    then show ?thesis by (simp add: splice1_def i)
  next
    case False
    then have "nat (int (length xs) - 1) = length xs - 1" "0 < length xs" by auto
    with False show ?thesis
      by (simp add: splice1_def i Let_def max_def butlast_conv_take)
  qed
qed

lemma length_splice1: "length (splice1 i xs) \<le> length xs"
  by (auto simp: splice1_def Let_def)

lemma onPeerDisconnect_keeps: "onPeerDisconnect p w = Some w' \<Longrightarrow> keeps w w'"
proof -
  let ?w1 = "w\<lparr>peers := splice1 (indexOf (peers w) p) (peers w)\<rparr>"
  assume "onPeerDisconnect p w = Some w'"
  then obtain w2 where f: "(if connecting ?w1 then fillPeers ?w1 else Some ?w1) = Some w2"
    and w': "w' = emit (EvDisconnect p) w2"
    by (auto simp: onPeerDisconnect_def Let_def split: option.splits)
  from f have "keeps ?w1 w2" by (auto split: if_splits dest: fillPeers_keeps)
  moreover have "keeps w ?w1"
    using length_splice1 [of "indexOf (peers w) p" "peers w"] by (simp add: keeps_def)
  ultimately show ?thesis
    unfolding w' by (meson keeps_trans keeps_emit)
qed

lemma onPeerError_keeps: "onPeerError p err w = Some w' \<Longrightarrow> keeps w w'"
  by (auto simp: onPeerError_def intro: keeps_trans [OF keeps_emit keeps_call])

lemma onError_keeps: "onError p err w = Some w' \<Longrightarrow> keeps w w'"
proof -
  let ?e = "case err of None \<Rightarrow> ConnectionError | Some e' \<Rightarrow> e'"
  let ?w2 = "emit (EvConnectError ?e (Some p)) (updPeer p (\<lambda>po. po\<lparr>onErrorAttached := False\<rparr>) w)"
  assume "onError p err w = Some w'"
  then have "(if connecting ?w2 then connectPeer ?w2 else Some ?w2) = Some w'"
    by (simp add: onError_def Let_def)
  from chain_keeps [OF this] show ?thesis
    by (meson keeps_trans keeps_emit keeps_updPeer)
qed

lemma shift_length: "xs @ [p] = d # rest \<Longrightarrow> length rest = length xs"
  by (drule arg_cong [where f = length]) simp

lemma addPeer_keeps: "addPeer p w = Some w' \<Longrightarrow> keeps w w'"
proof -
  let ?w0 = "if \<not> ready (peerObjs w p)
      then updPeer p (\<lambda>po. po\<lparr>onceReadyCbs := onceReadyCbs po + 1\<rparr>) w else w"
  let ?w1 = "?w0\<lparr>peers := peers ?w0 @ [p]\<rparr>"
  let ?reg = "updPeer p (\<lambda>po. po\<lparr>disconnectHandlers := disconnectHandlers po + 1,
      errorHandlers := errorHandlers po + 1\<rparr>)"
  assume "addPeer p w = Some w'"
  then obtain w2 where
    w2: "(if hardLimit ?w1 \<and> length (peers ?w1) > numPeers ?w1
          then (case peers ?w1 of [] \<Rightarrow> None
                | d # rest \<Rightarrow> Some (call (PeerDisconnectCall d) (?w1\<lparr>peers := rest\<rparr>)))
          else Some ?w1) = Some w2"
    and e: "emitPeer p (?reg w2) = Some w'"
    by (auto simp: addPeer_def Let_def split: option.splits)
  from w2 have "keeps w w2"
    by (auto simp: keeps_def updPeer_def call_def split: if_splits list.splits
        dest!: shift_length)
  moreover have "keeps w2 (?reg w2)" by simp
  moreover from e have "keeps (?reg w2) w'" by (rule emitPeer_keeps)
  ultimately show ?thesis by (meson keeps_trans)
qed

lemma onReady_keeps: "onReady p w = Some w' \<Longrightarrow> keeps w w'"
  unfolding onReady_def by (meson keeps_trans keeps_updPeer addPeer_keeps)

lemma peerReady_keeps: "peerReady p w = Some w' \<Longrightarrow> keeps w w'"
proof -
  let ?w1 = "updPeer p (\<lambda>po. po\<lparr>ready := True, readyAttached := False, onceReadyCbs := 0\<rparr>) w"
  assume "peerReady p w = Some w'"
  then obtain w2 where a: "(if readyAttached (peerObjs w p) then onReady p ?w1 else Some ?w1) = Some w2"
    and t: "times (onceReadyCbs (peerObjs w p)) (addPeer p) w2 = Some w'"
    by (auto simp: peerReady_def Let_def split: option.splits)
  from a have "keeps ?w1 w2" by (auto split: if_splits dest: onReady_keeps)
  moreover from t have "keeps w2 w'" by (rule times_keeps [rotated]) (rule addPeer_keeps)
  ultimately show ?thesis by (meson keeps_trans keeps_updPeer)
qed

lemma peerError_keeps: "peerError p err w = Some w' \<Longrightarrow> keeps w w'"
proof -
  assume "peerError p err w = Some w'"
  then obtain w1 where a: "(if onErrorAttached (peerObjs w p) then onError p err w else Some w) = Some w1"
    and t: "times (errorHandlers (peerObjs w p)) (onPeerError p err) w1 = Some w'"
    by (auto simp: peerError_def Let_def split: option.splits)
  from a have "keeps w w1" by (auto split: if_splits dest: onError_keeps)
  moreover from t have "keeps w1 w'" by (rule times_keeps [rotated]) (rule onPeerError_keeps)
  ultimately show ?thesis by (rule keeps_trans)
qed

lemma peerDisconnect_keeps: "peerDisconnect p err w = Some w' \<Longrightarrow> keeps w w'"
proof -
  let ?w0 = "updPeer p (\<lambda>po. po\<lparr>disconnectHandlers := 0\<rparr>) w"
  assume "peerDisconnect p err w = Some w'"
  then obtain w1 where a: "(if onErrorAttached (peerObjs w p) then onError p err ?w0 else Some ?w0) = Some w1"
    and t: "times (disconnectHandlers (peerObjs w p)) (onPeerDisconnect p) w1 = Some w'"
    by (auto simp: peerDisconnect_def Let_def split: option.splits)
  from a have "keeps ?w0 w1" by (auto split: if_splits dest: onError_keeps)
  moreover from t have "keeps w1 w'" by (rule times_keeps [rotated]) (rule onPeerDisconnect_keeps)
  ultimately show ?thesis by (meson keeps_trans keeps_updPeer)
qed

lemma connectWebSeeds_keeps: "keeps w (connectWebSeeds ss w)"
proof (induction ss w rule: connectWebSeeds.induct)
  case (1 w)
  then show ?case by simp
next
  case (2 seed ss w)
  then show ?case by (simp add: Let_def) (meson keeps_trans keeps_call)
next
  case (3 transport addr opts ss w)
  then show ?case by simp (meson keeps_trans keeps_call)
qed

lemma connect_keeps: "connect w = Some w' \<Longrightarrow> keeps w w'"
proof -
  let ?w1 = "w\<lparr>connecting := True\<rparr>"
  assume c: "connect w = Some w'"
  have k1: "keeps w ?w1" by (simp add: keeps_def)
  show ?thesis
  proof (cases "\<exists>s ss. webSeeds (params w) = Some (s # ss)")
    case True
    then obtain s ss where ws: "webSeeds (params w) = Some (s # ss)" by blast
    let ?w2 = "?w1\<lparr>onPeerListeners := onPeerListeners ?w1 @
        [(0, min (min (length (s # ss)) (numPeers ?w1 div 2)) 1)]\<rparr>"
    from c ws have "w' = connectWebSeeds (s # ss) ?w2" by (simp add: connect_def Let_def)
    moreover have "keeps w ?w2" by (simp add: keeps_def)
    ultimately show ?thesis using connectWebSeeds_keeps [of ?w2 "s # ss"]
      by (auto intro: keeps_trans)
  next
    case False
    with c have "fillPeers ?w1 = Some w'"
      by (auto simp: connect_def Let_def split: option.splits list.splits)
    from fillPeers_keeps [OF this] k1 show ?thesis by (rule keeps_trans [rotated])
  qed
qed

lemma disconnect_keeps: "keeps w (disconnect w)"
  by (simp add: disconnect_def keeps_def Let_def)

lemma step_keeps: "step e w = Some w' \<Longrightarrow> keeps w w'"
proof (cases e)
  case (TimerFires a)
  assume s: "step e w = Some w'"
  show ?thesis
  proof (cases "a < length (attempts w) \<and> a_timeout (attempts w ! a) = Armed")
    case True
    let ?w1 = "w\<lparr>attempts := (attempts w)[a := (attempts w ! a)\<lparr>a_timeout := Fired\<rparr>]\<rparr>"
    from True s TimerFires have "onTimeout a ?w1 = Some w'" by simp
    then have "keeps ?w1 w'" by (rule onTimeout_keeps)
    moreover from True have "keeps w ?w1"
      by (auto simp: keeps_def later_def intro!: grown_update)
    ultimately show ?thesis by (rule keeps_trans [rotated])
  next
    case False
    with s TimerFires show ?thesis by auto
  qed
next
  case (DnsAnswer a err addresses)
  assume s: "step e w = Some w'"
  show ?thesis
  proof (cases "a < length (attempts w) \<and> a_stage (attempts w ! a) = Resolving")
    case False
    with s DnsAnswer show ?thesis by auto
  next
    case True
    show ?thesis
    proof (cases err)
      case (Some x)
      with True s DnsAnswer have "attemptCb a (Some x) (setStage a Completed w) = Some w'"
        by simp
      from attemptCb_keeps [OF this] show ?thesis
        by (rule keeps_trans [OF keeps_setStage])
    next
      case None
      obtain address w1 where g: "getRandom addresses w = (address, w1)"
        by (cases "getRandom addresses w")
      then have "keeps w w1" by (auto simp: getRandom_def Let_def keeps_def)
      moreover from None True s DnsAnswer g
      have "w' = connectTCP a address (defaultPort (params w1)) w1" by simp
      then have "keeps w1 w'"
        unfolding connectTCP_def by (meson keeps_trans keeps_setStage keeps_call)
      ultimately show ?thesis by (rule keeps_trans)
    qed
  qed
next
  case (SocketError a err)
  assume "step e w = Some w'"
  with SocketError show ?thesis
    by (auto split: if_splits dest!: attemptCb_keeps intro: keeps_trans [OF keeps_setStage])
next
  case (SocketConnect a)
  assume "step e w = Some w'"
  with SocketConnect show ?thesis
    by (auto split: if_splits dest!: attemptCb_keeps intro: keeps_trans [OF keeps_setStage])
next
  case (MethodAnswer a err)
  assume "step e w = Some w'"
  with MethodAnswer show ?thesis
    by (auto split: if_splits dest!: attemptCb_keeps intro: keeps_trans [OF keeps_setStage])
next
  case (ExchangePeers n)
  assume "step e w = Some w'"
  with ExchangePeers show ?thesis by (auto simp: keeps_def)
qed (auto split: if_splits
      dest: connect_keeps addPeer_keeps onConnection_keeps peerReady_keeps peerError_keeps
        peerDisconnect_keeps
      simp: disconnect_keeps)

lemma run_keeps: "run es w = Some w' \<Longrightarrow> keeps w w'"
proof (induction es arbitrary: w)
  case Nil
  then show ?case by simp
next
  case (Cons e es)
  then show ?case
    by (auto split: option.splits dest: step_keeps intro: keeps_trans)
qed

lemma onPeer_quiet: "onPeer ls w = Some (ks, w') \<Longrightarrow> quiet w w'"
proof (induction ls w arbitrary: ks w' rule: onPeer.induct)
  case (1 w)
  then show ?case by simp
next
  case (2 i nSeeds ls w)
  show ?case
  proof (cases "i + 1 < nSeeds")
    case True
    with 2 show ?thesis by (auto split: option.splits)
  next
    case False
    with 2(3) obtain w1 where f: "fillPeers w = Some w1" and r: "onPeer ls w1 = Some (ks, w')"
      by (auto split: option.splits)
    from 2(2) [OF False f r] fillPeers_quiet [OF f] show ?thesis
      by (rule quiet_trans [rotated])
  qed
qed

lemma emitPeer_frame:
  assumes "emitPeer p w = Some w'"
  shows "peers w' = peers w \<and> numPeers w' = numPeers w \<and> hardLimit w' = hardLimit w \<and>
         disconnected (calls w') = disconnected (calls w)"
proof -
  from assms obtain ks v where o: "onPeer (onPeerListeners w) (emit (EvPeer p) w) = Some (ks, v)"
    and w': "w' = v\<lparr>onPeerListeners := ks\<rparr>"
    by (auto simp: emitPeer_def split: option.splits)
  from onPeer_quiet [OF o] have "quiet (emit (EvPeer p) w) v" .
  then show ?thesis by (simp add: w' quiet_def emit_def)
qed

lemma emitPeer_returns: "onPeerListeners w = [] \<Longrightarrow> emitPeer p w \<noteq> None"
  by (simp add: emitPeer_def emit_def)

lemma addPeer_result:
  assumes "addPeer p w = Some w'"
  shows "(if hardLimit w \<and> length (peers w) + 1 > numPeers w
          then peers w' = tl (peers w @ [p]) \<and>
               disconnected (calls w') = disconnected (calls w) @ [hd (peers w @ [p])]
          else peers w' = peers w @ [p] \<and> disconnected (calls w') = disconnected (calls w))"
proof -
  let ?w0 = "if \<not> ready (peerObjs w p)
      then updPeer p (\<lambda>po. po\<lparr>onceReadyCbs := onceReadyCbs po + 1\<rparr>) w else w"
  let ?w1 = "?w0\<lparr>peers := peers ?w0 @ [p]\<rparr>"
  let ?reg = "updPeer p (\<lambda>po. po\<lparr>disconnectHandlers := disconnectHandlers po + 1,
      errorHandlers := errorHandlers po + 1\<rparr>)"
  from assms obtain w2 where
    w2: "(if hardLimit ?w1 \<and> length (peers ?w1) > numPeers ?w1
          then (case peers ?w1 of [] \<Rightarrow> None
                | d # rest \<Rightarrow> Some (call (PeerDisconnectCall d) (?w1\<lparr>peers := rest\<rparr>)))
          else Some ?w1) = Some w2"
    and e: "emitPeer p (?reg w2) = Some w'"
    by (auto simp: addPeer_def Let_def split: option.splits)
  from emitPeer_frame [OF e] have f: "peers w' = peers w2"
    "disconnected (calls w') = disconnected (calls w2)"
    by (simp_all add: updPeer_def)
  from w2 show ?thesis unfolding f
    by (auto simp: updPeer_def call_def split: if_splits list.splits)
qed

lemma addPeer_returns: "onPeerListeners w = [] \<Longrightarrow> addPeer p w \<noteq> None"
  by (auto simp: addPeer_def Let_def updPeer_def call_def emitPeer_def emit_def
      split: option.splits list.splits)

lemma PeerGroup_initial:
  assumes "PeerGroup isBrowser draws ps opts = Inr w0"
  shows "peers w0 = [] \<and> 0 < numPeers w0 \<and> \<not> connecting w0 \<and> attempts w0 = []"
  using assms
  by (auto simp: PeerGroup_def Let_def orDefault_def split: sum.splits option.splits if_splits)

section \<open>One attempt and its timer\<close>

lemma chain_quiet:
  assumes "(if connecting v then connectPeer v else Some v) = Some v'"
  shows "quiet v v' \<and> emitted v' = emitted v"
proof (cases "connecting v")
  case True
  with assms have "connectPeer v = Some v'" by simp
  from connectPeer_connecting [OF True this] have "startAttempt v = Some v'" .
  from startAttempt_quiet [OF this] show ?thesis by simp
next
  case False
  with assms show ?thesis by simp
qed

lemma onConnection_attempts:
  assumes "onConnection err w = Some w'"
  shows "\<exists>xs. attempts w' = attempts w @ xs"
proof (cases err)
  case None
  with assms show ?thesis by (auto simp: onConnection_def Let_def call_def)
next
  case (Some e)
  with assms have "(if connecting (emit (EvConnectError e None) w)
      then connectPeer (emit (EvConnectError e None) w)
      else Some (emit (EvConnectError e None) w)) = Some w'"
    by (simp add: onConnection_def Let_def)
  from chain_quiet [OF this] show ?thesis by (simp add: quiet_def emit_def)
qed

lemma timer_fires:
  assumes "a < length (attempts w)" and "a_timeout (attempts w ! a) = Armed"
    and "step (TimerFires a) w = Some w1"
  shows "emitted w1 = emitted w @ [EvConnectError ConnectionTimedOut None] \<and>
         peers w1 = peers w \<and> peerObjs w1 = peerObjs w \<and> created w1 = created w \<and>
         a < length (attempts w1) \<and> timedOut (attempts w1 ! a) \<and>
         a_timeout (attempts w1 ! a) = Fired"
proof -
  let ?x = "(attempts w ! a)\<lparr>a_timeout := Fired\<rparr>"
  let ?wF = "w\<lparr>attempts := (attempts w)[a := ?x]\<rparr>"
  let ?w1 = "?wF\<lparr>attempts := (attempts ?wF)[a := (attempts ?wF ! a)\<lparr>timedOut := True\<rparr>]\<rparr>"
  let ?w2 = "emit (EvConnectError ConnectionTimedOut None) ?w1"
  from assms have "onTimeout a ?wF = Some w1" by simp
  then have "(if connecting ?w2 then connectPeer ?w2 else Some ?w2) = Some w1"
    by (simp add: onTimeout_def Let_def split: if_splits)
  from chain_quiet [OF this] have q: "quiet ?w2 w1" and e: "emitted w1 = emitted ?w2" by simp_all
  from q obtain xs where xs: "attempts w1 = attempts ?w2 @ xs" by (auto simp: quiet_def)
  from assms(1) have "attempts w1 ! a = ?x\<lparr>timedOut := True\<rparr>"
    by (simp add: xs emit_def nth_append)
  moreover from assms(1) have "a < length (attempts w1)" by (simp add: xs emit_def)
  moreover from q have "peers w1 = peers w" "peerObjs w1 = peerObjs w" "created w1 = created w"
    by (simp_all add: quiet_def emit_def)
  ultimately show ?thesis using e by (simp add: emit_def)
qed

lemma timedOut_persists:
  assumes "keeps w1 w2" and "a < length (attempts w1)"
    and "timedOut (attempts w1 ! a)" and "a_timeout (attempts w1 ! a) = Fired"
  shows "a < length (attempts w2) \<and> timedOut (attempts w2 ! a) \<and>
         a_timeout (attempts w2 ! a) \<noteq> Armed \<and> a_timeout (attempts w2 ! a) \<noteq> NoTimer"
  using assms by (auto simp: keeps_def grown_def later_def)

lemma not_pending_persists:
  assumes "keeps w1 w2" and "a < length (attempts w1)" and "a_timeout (attempts w1 ! a) \<noteq> Armed"
  shows "a_timeout (attempts w2 ! a) \<noteq> Armed"
  using assms by (auto simp: keeps_def grown_def later_def)

lemma late_callback:
  assumes "timedOut (attempts w ! a)" and "a_timeout (attempts w ! a) \<noteq> NoTimer"
  shows "attemptCb a err w = Some w"
  using assms by (simp add: attemptCb_def)

lemma late_answer:
  assumes "a < length (attempts w)" and "timedOut (attempts w ! a)"
    and "a_timeout (attempts w ! a) \<noteq> NoTimer"
    and "answers e = Some a" and "step e w = Some w'"
  shows "peers w' = peers w \<and> emitted w' = emitted w \<and> peerObjs w' = peerObjs w \<and>
         created w' = created w \<and> length (attempts w') = length (attempts w)"
proof -
  have st: "\<And>s. attemptCb a err' (setStage a s w) = Some (setStage a s w)" for err'
    using assms(1-3) by (intro late_callback) (simp_all add: setStage_def)
  show ?thesis
  proof (cases e)
    case (DnsAnswer b err addresses)
    with assms(4) have b: "b = a" by simp
    show ?thesis
    proof (cases err)
      case None
      with assms(5) DnsAnswer b show ?thesis
        by (auto simp: Let_def getRandom_def connectTCP_def setStage_def call_def
            split: if_splits)
    next
      case (Some x)
      with assms(5) DnsAnswer b st [of "Some x" Completed] show ?thesis
        by (auto simp: setStage_def split: if_splits)
    qed
  next
    case (SocketError b x)
    with assms(4,5) st [of "Some x" Completed] show ?thesis
      by (auto simp: setStage_def split: if_splits)
  next
    case (SocketConnect b)
    with assms(4,5) st [of None Completed] show ?thesis
      by (auto simp: setStage_def split: if_splits)
  next
    case (MethodAnswer b err)
    with assms(4,5) st [of err Completed] show ?thesis
      by (auto simp: setStage_def split: if_splits)
  qed (use assms(4) in simp_all)
qed

lemma callback_clears:
  assumes "a < length (attempts w)" and "a_timeout (attempts w ! a) = Armed"
    and "\<not> timedOut (attempts w ! a)" and "attemptCb a err w = Some w1"
  shows "a < length (attempts w1) \<and> a_timeout (attempts w1 ! a) = Cleared"
proof -
  let ?w' = "w\<lparr>attempts := (attempts w)[a := (attempts w ! a)\<lparr>a_timeout := Cleared\<rparr>]\<rparr>"
  from assms have "onConnection err ?w' = Some w1" by (simp add: attemptCb_def)
  from onConnection_attempts [OF this] obtain xs where "attempts w1 = attempts ?w' @ xs" ..
  with assms(1) show ?thesis by (simp add: nth_append)
qed

section \<open>The peer set is in admission order\<close>

lemma admitted_append [simp]: "admitted (xs @ ys) = admitted xs @ admitted ys"
  by (induction xs rule: admitted.induct) simp_all

lemma calm_refl [simp]: "calm w w"
  by (simp add: calm_def)

lemma calm_trans: "calm w w1 \<Longrightarrow> calm w1 w2 \<Longrightarrow> calm w w2"
  unfolding calm_def by (auto intro: subseq_order.trans)

lemma calm_inOrder: "calm w w' \<Longrightarrow> inOrder w \<Longrightarrow> inOrder w'"
  unfolding calm_def inOrder_def by (auto intro: subseq_order.trans)

lemma calm_emit: "admitted [e] = [] \<Longrightarrow> calm w (emit e w)"
  by (simp add: calm_def emit_def)

lemma calm_call [simp]: "calm w (call c w)"
  by (simp add: calm_def call_def)

lemma calm_updPeer [simp]: "calm w (updPeer p f w)"
  by (simp add: calm_def updPeer_def)

lemma calm_setStage [simp]: "calm w (setStage a s w)"
  by (simp add: calm_def setStage_def)

lemma calm_attempts [simp]: "calm w (w\<lparr>attempts := xs\<rparr>)"
  by (simp add: calm_def)

lemma times_calm:
  assumes "\<And>v v'. f v = Some v' \<Longrightarrow> calm v v'"
  shows "times n f w = Some w' \<Longrightarrow> calm w w'"
proof (induction n arbitrary: w)
  case 0
  then show ?case by simp
next
  case (Suc n)
  then show ?case
    by (auto split: option.splits dest: assms intro: calm_trans)
qed

lemma connectPeer_calm: "connectPeer w = Some w' \<Longrightarrow> calm w w'"
proof -
  assume "connectPeer w = Some w'"
  from connectPeer_cases [OF this] show ?thesis
  proof
    assume "getPeerArray w \<noteq> [] \<and> startAttempt w = Some w'"
    then have "startAttempt w = Some w'" ..
    from startAttempt_quiet [OF this] show ?thesis by (simp add: calm_def quiet_def)
  next
    assume "getPeerArray w = [] \<and> \<not> connecting w \<and>
      w' = emit (EvConnectError NoMethodsAvailable None) w"
    then show ?thesis by (simp add: calm_emit)
  qed
qed

lemma fillPeers_calm: "fillPeers w = Some w' \<Longrightarrow> calm w w'"
  unfolding fillPeers_def Let_def by (rule times_calm [OF connectPeer_calm])

lemma chain_calm:
  "(if connecting w then connectPeer w else Some w) = Some w' \<Longrightarrow> calm w w'"
  by (auto split: if_splits dest: connectPeer_calm)

lemma onConnection_calm: "onConnection err w = Some w' \<Longrightarrow> calm w w'"
proof (cases err)
  case None
  assume "onConnection err w = Some w'"
  with None show ?thesis
    by (auto simp: onConnection_def Let_def calm_def call_def)
next
  case (Some e)
  assume "onConnection err w = Some w'"
  with Some have "(if connecting (emit (EvConnectError e None) w)
      then connectPeer (emit (EvConnectError e None) w)
      else Some (emit (EvConnectError e None) w)) = Some w'"
    by (simp add: onConnection_def Let_def)
  from chain_calm [OF this] show ?thesis
    by (rule calm_trans [OF calm_emit, rotated]) simp
qed

lemma onTimeout_calm: "onTimeout a w = Some w' \<Longrightarrow> calm w w'"
proof -
  let ?w1 = "w\<lparr>attempts := (attempts w)[a := (attempts w ! a)\<lparr>timedOut := True\<rparr>]\<rparr>"
  assume "onTimeout a w = Some w'"
  then have "(if connecting (emit (EvConnectError ConnectionTimedOut None) ?w1)
      then connectPeer (emit (EvConnectError ConnectionTimedOut None) ?w1)
      else Some (emit (EvConnectError ConnectionTimedOut None) ?w1)) = Some w'"
    by (simp add: onTimeout_def Let_def split: if_splits)
  from chain_calm [OF this] have "calm (emit (EvConnectError ConnectionTimedOut None) ?w1) w'" .
  moreover have "calm ?w1 (emit (EvConnectError ConnectionTimedOut None) ?w1)"
    by (rule calm_emit) simp
  moreover have "calm w ?w1" by simp
  ultimately show ?thesis
    by (blast intro: calm_trans)
qed

lemma attemptCb_calm: "attemptCb a err w = Some w' \<Longrightarrow> calm w w'"
proof -
  let ?w1 = "w\<lparr>attempts := (attempts w)[a := (attempts w ! a)\<lparr>a_timeout := Cleared\<rparr>]\<rparr>"
  assume r: "attemptCb a err w = Some w'"
  show ?thesis
  proof (cases "a_timeout (attempts w ! a) = NoTimer")
    case True
    with r show ?thesis by (simp add: attemptCb_def onConnection_calm)
  next
    case nt: False
    show ?thesis
    proof (cases "timedOut (attempts w ! a)")
      case True
      with nt r show ?thesis by (simp add: attemptCb_def)
    next
      case False
      with nt r have "onConnection err ?w1 = Some w'" by (simp add: attemptCb_def)
      then have "calm ?w1 w'" by (rule onConnection_calm)
      moreover have "calm w ?w1" by simp
      ultimately show ?thesis by (rule calm_trans [rotated])
    qed
  qed
qed

lemma onPeer_calm: "onPeer ls w = Some (ks, w') \<Longrightarrow> calm w w'"
proof (induction ls w arbitrary: ks w' rule: onPeer.induct)
  case (1 w)
  then show ?case by simp
next
  case (2 i nSeeds ls w)
  show ?case
  proof (cases "i + 1 < nSeeds")
    case True
    with 2 show ?thesis by (auto split: option.splits)
  next
    case False
    with 2(3) obtain w1 where f: "fillPeers w = Some w1" and r: "onPeer ls w1 = Some (ks, w')"
      by (auto split: option.splits)
    from 2(2) [OF False f r] fillPeers_calm [OF f] show ?thesis
      by (rule calm_trans [rotated])
  qed
qed

lemma subseq_splice1: "subseq (splice1 i xs) xs"
proof -
  have "subseq (take n xs @ drop (n + 1) xs) xs" for n
  proof -
    have "suffix (drop 1 (drop n xs)) (drop n xs)" by (rule suffix_drop)
    then have "subseq (drop (n + 1) xs) (drop n xs)"
      by (simp add: suffix_imp_subseq)
    then have "subseq (take n xs @ drop (n + 1) xs) (take n xs @ drop n xs)"
      by (simp only: subseq_append')
    then show ?thesis by simp
  qed
  then show ?thesis by (simp add: splice1_def Let_def)
qed

lemma onPeerDisconnect_calm: "onPeerDisconnect p w = Some w' \<Longrightarrow> calm w w'"
proof -
  let ?w1 = "w\<lparr>peers := splice1 (indexOf (peers w) p) (peers w)\<rparr>"
  assume "onPeerDisconnect p w = Some w'"
  then obtain w2 where f: "(if connecting ?w1 then fillPeers ?w1 else Some ?w1) = Some w2"
    and w': "w' = emit (EvDisconnect p) w2"
    by (auto simp: onPeerDisconnect_def Let_def split: option.splits)
  from f have "calm ?w1 w2" by (auto split: if_splits dest: fillPeers_calm)
  moreover have "calm w ?w1" by (simp add: calm_def subseq_splice1)
  moreover have "calm w2 w'" unfolding w' by (rule calm_emit) simp
  ultimately show ?thesis by (meson calm_trans)
qed

lemma onPeerError_calm: "onPeerError p err w = Some w' \<Longrightarrow> calm w w'"
  by (auto simp: onPeerError_def intro!: calm_trans [OF calm_emit calm_call])

lemma onError_calm: "onError p err w = Some w' \<Longrightarrow> calm w w'"
proof -
  let ?e = "case err of None \<Rightarrow> ConnectionError | Some e' \<Rightarrow> e'"
  let ?w1 = "updPeer p (\<lambda>po. po\<lparr>onErrorAttached := False\<rparr>) w"
  let ?w2 = "emit (EvConnectError ?e (Some p)) ?w1"
  assume "onError p err w = Some w'"
  then have "(if connecting ?w2 then connectPeer ?w2 else Some ?w2) = Some w'"
    by (simp add: onError_def Let_def)
  from chain_calm [OF this] have "calm ?w2 w'" .
  moreover have "calm ?w1 ?w2" by (rule calm_emit) simp
  ultimately show ?thesis by (meson calm_trans calm_updPeer)
qed

lemma peerError_calm: "peerError p err w = Some w' \<Longrightarrow> calm w w'"
proof -
  assume "peerError p err w = Some w'"
  then obtain w1 where a: "(if onErrorAttached (peerObjs w p) then onError p err w else Some w) = Some w1"
    and t: "times (errorHandlers (peerObjs w p)) (onPeerError p err) w1 = Some w'"
    by (auto simp: peerError_def Let_def split: option.splits)
  from a have "calm w w1" by (auto split: if_splits dest: onError_calm)
  moreover from t have "calm w1 w'" by (rule times_calm [rotated]) (rule onPeerError_calm)
  ultimately show ?thesis by (rule calm_trans)
qed

lemma peerDisconnect_calm: "peerDisconnect p err w = Some w' \<Longrightarrow> calm w w'"
proof -
  let ?w0 = "updPeer p (\<lambda>po. po\<lparr>disconnectHandlers := 0\<rparr>) w"
  assume "peerDisconnect p err w = Some w'"
  then obtain w1 where a: "(if onErrorAttached (peerObjs w p) then onError p err ?w0 else Some ?w0) = Some w1"
    and t: "times (disconnectHandlers (peerObjs w p)) (onPeerDisconnect p) w1 = Some w'"
    by (auto simp: peerDisconnect_def Let_def split: option.splits)
  from a have "calm ?w0 w1" by (auto split: if_splits dest: onError_calm)
  moreover from t have "calm w1 w'" by (rule times_calm [rotated]) (rule onPeerDisconnect_calm)
  ultimately show ?thesis by (meson calm_trans calm_updPeer)
qed

lemma connectWebSeeds_calm: "calm w (connectWebSeeds ss w)"
proof (induction ss w rule: connectWebSeeds.induct)
  case (1 w)
  then show ?case by simp
next
  case (2 seed ss w)
  then show ?case by (simp add: Let_def) (meson calm_trans calm_call)
next
  case (3 transport addr opts ss w)
  then show ?case by simp (meson calm_trans calm_call)
qed

lemma connect_calm: "connect w = Some w' \<Longrightarrow> calm w w'"
proof -
  let ?w1 = "w\<lparr>connecting := True\<rparr>"
  assume c: "connect w = Some w'"
  have k1: "calm w ?w1" by (simp add: calm_def)
  show ?thesis
  proof (cases "\<exists>s ss. webSeeds (params w) = Some (s # ss)")
    case True
    then obtain s ss where ws: "webSeeds (params w) = Some (s # ss)" by blast
    let ?w2 = "?w1\<lparr>onPeerListeners := onPeerListeners ?w1 @
        [(0, min (min (length (s # ss)) (numPeers ?w1 div 2)) 1)]\<rparr>"
    from c ws have "w' = connectWebSeeds (s # ss) ?w2" by (simp add: connect_def Let_def)
    moreover have "calm w ?w2" by (simp add: calm_def)
    ultimately show ?thesis using connectWebSeeds_calm [of ?w2 "s # ss"]
      by (auto intro: calm_trans)
  next
    case False
    with c have "fillPeers ?w1 = Some w'"
      by (auto simp: connect_def Let_def split: option.splits list.splits)
    from fillPeers_calm [OF this] k1 show ?thesis by (rule calm_trans [rotated])
  qed
qed

lemma disconnect_calm: "calm w (disconnect w)"
  by (simp add: disconnect_def calm_def Let_def)

lemma emitPeer_admits:
  assumes "emitPeer p w = Some w'"
  shows "peers w' = peers w \<and> admitted (emitted w') = admitted (emitted w) @ [p]"
proof -
  from assms obtain ks v where o: "onPeer (onPeerListeners w) (emit (EvPeer p) w) = Some (ks, v)"
    and w': "w' = v\<lparr>onPeerListeners := ks\<rparr>"
    by (auto simp: emitPeer_def split: option.splits)
  from onPeer_quiet [OF o] have "peers v = peers w" by (simp add: quiet_def emit_def)
  moreover from onPeer_calm [OF o] have "admitted (emitted v) = admitted (emitted w) @ [p]"
    by (auto simp: calm_def emit_def)
  ultimately show ?thesis by (simp add: w')
qed

lemma addPeer_inOrder:
  assumes "addPeer p w = Some w'" and "inOrder w"
  shows "inOrder w'"
proof -
  let ?w0 = "if \<not> ready (peerObjs w p)
      then updPeer p (\<lambda>po. po\<lparr>onceReadyCbs := onceReadyCbs po + 1\<rparr>) w else w"
  let ?w1 = "?w0\<lparr>peers := peers ?w0 @ [p]\<rparr>"
  let ?reg = "updPeer p (\<lambda>po. po\<lparr>disconnectHandlers := disconnectHandlers po + 1,
      errorHandlers := errorHandlers po + 1\<rparr>)"
  from assms(1) obtain w2 where
    w2: "(if hardLimit ?w1 \<and> length (peers ?w1) > numPeers ?w1
          then (case peers ?w1 of [] \<Rightarrow> None
                | d # rest \<Rightarrow> Some (call (PeerDisconnectCall d) (?w1\<lparr>peers := rest\<rparr>)))
          else Some ?w1) = Some w2"
    and e: "emitPeer p (?reg w2) = Some w'"
    by (auto simp: addPeer_def Let_def split: option.splits)
  from w2 have "subseq (peers w2) (peers w @ [p]) \<and> emitted w2 = emitted w"
    by (auto simp: updPeer_def call_def split: if_splits list.splits
        intro: subseq_Cons' [OF subseq_order.refl])
  moreover from emitPeer_admits [OF e] have "peers w' = peers w2"
    "admitted (emitted w') = admitted (emitted w2) @ [p]"
    by (simp_all add: updPeer_def)
  moreover from assms(2) have "subseq (peers w @ [p]) (admitted (emitted w) @ [p])"
    by (simp add: inOrder_def)
  ultimately show ?thesis
    unfolding inOrder_def by (auto intro: subseq_order.trans)
qed

lemma times_inOrder:
  assumes "\<And>v v'. f v = Some v' \<Longrightarrow> inOrder v \<Longrightarrow> inOrder v'"
  shows "times n f w = Some w' \<Longrightarrow> inOrder w \<Longrightarrow> inOrder w'"
proof (induction n arbitrary: w)
  case 0
  then show ?case by simp
next
  case (Suc n)
  then show ?case
    by (auto split: option.splits dest: assms)
qed

lemma peerReady_inOrder:
  assumes "peerReady p w = Some w'" and "inOrder w"
  shows "inOrder w'"
proof -
  let ?w1 = "updPeer p (\<lambda>po. po\<lparr>ready := True, readyAttached := False, onceReadyCbs := 0\<rparr>) w"
  from assms(1) obtain w2 where a: "(if readyAttached (peerObjs w p) then onReady p ?w1 else Some ?w1) = Some w2"
    and t: "times (onceReadyCbs (peerObjs w p)) (addPeer p) w2 = Some w'"
    by (auto simp: peerReady_def Let_def split: option.splits)
  from assms(2) have "inOrder ?w1" by (simp add: inOrder_def updPeer_def)
  with a have "inOrder w2"
    by (auto simp: onReady_def split: if_splits dest!: addPeer_inOrder
        simp: inOrder_def updPeer_def)
  with t show ?thesis by (rule times_inOrder [rotated]) (rule addPeer_inOrder)
qed

lemma step_inOrder:
  assumes "step e w = Some w'" and "inOrder w"
  shows "inOrder w'"
proof (cases e)
  case (CallAddPeer p)
  with assms show ?thesis by (auto dest: addPeer_inOrder)
next
  case (PeerReady p)
  with assms show ?thesis by (auto dest: peerReady_inOrder)
next
  case (DnsAnswer a err addresses)
  with assms(1) have "calm w w'"
    by (auto simp: Let_def getRandom_def connectTCP_def calm_def setStage_def call_def
        split: if_splits option.splits dest!: attemptCb_calm)
  then show ?thesis using assms(2) by (rule calm_inOrder)
next
  case (TimerFires a)
  with assms(1) have "calm w w'"
    by (auto split: if_splits dest!: onTimeout_calm simp: calm_def)
  then show ?thesis using assms(2) by (rule calm_inOrder)
next
  case (ExchangePeers n)
  with assms show ?thesis by (auto simp: inOrder_def)
next
  case CallConnect
  with assms(1) have "calm w w'" by (auto dest: connect_calm)
  then show ?thesis using assms(2) by (rule calm_inOrder)
next
  case CallDisconnect
  with assms(1) have "calm w w'" by (auto simp: disconnect_calm)
  then show ?thesis using assms(2) by (rule calm_inOrder)
next
  case (SocketError a x)
  with assms(1) have "calm w w'"
    by (auto split: if_splits dest!: attemptCb_calm simp: calm_def setStage_def)
  then show ?thesis using assms(2) by (rule calm_inOrder)
next
  case (SocketConnect a)
  with assms(1) have "calm w w'"
    by (auto split: if_splits dest!: attemptCb_calm simp: calm_def setStage_def)
  then show ?thesis using assms(2) by (rule calm_inOrder)
next
  case (MethodAnswer a err)
  with assms(1) have "calm w w'"
    by (auto split: if_splits dest!: attemptCb_calm simp: calm_def setStage_def)
  then show ?thesis using assms(2) by (rule calm_inOrder)
next
  case (SeedAnswer err)
  with assms(1) have "calm w w'" by (auto dest: onConnection_calm)
  then show ?thesis using assms(2) by (rule calm_inOrder)
next
  case (ExchangePeer incoming)
  with assms(1) have "calm w w'" by (auto split: if_splits dest: onConnection_calm)
  then show ?thesis using assms(2) by (rule calm_inOrder)
next
  case (PeerError p err)
  with assms(1) have "calm w w'" by (auto dest: peerError_calm)
  then show ?thesis using assms(2) by (rule calm_inOrder)
next
  case (PeerDisconnect p err)
  with assms(1) have "calm w w'" by (auto dest: peerDisconnect_calm)
  then show ?thesis using assms(2) by (rule calm_inOrder)
qed

lemma run_inOrder: "run es w = Some w' \<Longrightarrow> inOrder w \<Longrightarrow> inOrder w'"
proof (induction es arbitrary: w)
  case Nil
  then show ?case by simp
next
  case (Cons e es)
  then show ?case
    by (auto split: option.splits dest: step_inOrder)
qed

lemma PeerGroup_inOrder: "PeerGroup isBrowser draws ps opts = Inr w0 \<Longrightarrow> inOrder w0"
  by (auto simp: PeerGroup_def Let_def inOrder_def split: sum.splits option.splits)

section \<open>The claims\<close>

text \<open>
  C1. A peer that is not ready is to be admitted only once it becomes ready, and once.
  The code does not return after queueing the callback: \<open>addPeer\<close> of the unready
  peer \<open>Ext 0\<close> on a fresh pool puts it into \<open>peers\<close> and emits \<open>peer\<close> at once,
  and when the peer then becomes ready the queued callback adds it again, so that
  \<open>peers\<close> holds it twice.
\<close>

theorem C1_unready_peer_admitted_twice:
  "map_option (\<lambda>w. (ready (peerObjs w (Ext 0)), peers w, emitted w))
     (scenario (PeerGroup False [] (Some base_params) None) [CallAddPeer (Ext 0)]) =
   Some (False, [Ext 0], [EvPeer (Ext 0)]) \<and>
   map_option peers
     (scenario (PeerGroup False [] (Some base_params) None)
        [CallAddPeer (Ext 0), PeerReady (Ext 0)]) =
   Some [Ext 0, Ext 0]"
  by (simp add: model_defs connectPeer.simps times_unfold)

text \<open>
  C2. Each removal of a peer while connecting is claimed to trigger exactly one new
  attempt, never a batch computed from the deficit. With three peers wanted, one
  admitted and two attempts still in flight (3 attempts so far), the disconnect of the
  admitted peer makes \<open>_fillPeers\<close> start three attempts at once (6 so far).
\<close>

theorem C2_counterexample:
  "map_option connecting
     (scenario three_static_pool [CallConnect, SocketConnect 0, PeerReady (Own 0)]) =
   Some True \<and>
   map_option peers
     (scenario three_static_pool [CallConnect, SocketConnect 0, PeerReady (Own 0)]) =
   Some [Own 0] \<and>
   map_option (length \<circ> attempts)
     (scenario three_static_pool [CallConnect, SocketConnect 0, PeerReady (Own 0)]) =
   Some 3 \<and>
   map_option peers
     (scenario three_static_pool
        [CallConnect, SocketConnect 0, PeerReady (Own 0), PeerDisconnect (Own 0) None]) =
   Some [] \<and>
   map_option (length \<circ> attempts)
     (scenario three_static_pool
        [CallConnect, SocketConnect 0, PeerReady (Own 0), PeerDisconnect (Own 0) None]) =
   Some 6"
  by (simp add: three_static_pool_def model_defs static_params_def connectPeer.simps
      times_unfold)

text \<open>
  C2, amended. While \<open>connecting\<close> is true, each run of the disconnect listener of
  \<open>addPeer\<close> for a peer in the set removes it (its first entry) and calls
  \<open>_fillPeers\<close>, which issues \<open>numPeers - peers.length\<close> attempts, counted after
  the removal (none when that is not positive): a batch computed from the current
  deficit. It is exactly one attempt when the set held exactly \<open>numPeers\<close> peers
  before. With a discovery method available the listener returns.
\<close>

theorem C2_removal_refills_deficit:
  assumes "connecting w"
  shows "(getPeerArray w \<noteq> [] \<longrightarrow> onPeerDisconnect p w \<noteq> None) \<and>
         (onPeerDisconnect p w = Some w' \<longrightarrow>
            (p \<in> set (peers w) \<longrightarrow> peers w' = remove1 p (peers w)) \<and>
            length (attempts w') =
              length (attempts w) + nat (int (numPeers w) - int (length (peers w'))) \<and>
            (p \<in> set (peers w) \<and> length (peers w) = numPeers w \<longrightarrow>
               length (attempts w') = length (attempts w) + 1))"
proof -
  let ?w1 = "w\<lparr>peers := splice1 (indexOf (peers w) p) (peers w)\<rparr>"
  let ?n = "nat (int (numPeers ?w1) - int (length (peers ?w1)))"
  have c1: "connecting ?w1" using assms by simp
  have body: "onPeerDisconnect p w =
      (case times ?n connectPeer ?w1 of None \<Rightarrow> None | Some w2 \<Rightarrow> Some (emit (EvDisconnect p) w2))"
    using assms by (simp add: onPeerDisconnect_def fillPeers_def Let_def)
  have returns: "onPeerDisconnect p w \<noteq> None" if "getPeerArray w \<noteq> []"
  proof -
    from that have "getPeerArray ?w1 \<noteq> []" by (simp add: getPeerArray_def)
    from times_connectPeer_returns [OF this, of ?n] show ?thesis
      by (auto simp: body)
  qed
  have result: "peers w' = splice1 (indexOf (peers w) p) (peers w) \<and>
      length (attempts w') =
        length (attempts w) + nat (int (numPeers w) - int (length (peers w')))"
    if r: "onPeerDisconnect p w = Some w'"
  proof -
    from r obtain w2 where t: "times ?n connectPeer ?w1 = Some w2"
      and w': "w' = emit (EvDisconnect p) w2"
      by (auto simp: body split: option.splits)
    from times_quiet [OF connectPeer_quiet t] have q: "quiet ?w1 w2" .
    from times_connectPeer_count [OF c1 t]
    have n: "length (attempts w2) = length (attempts w) + ?n" by simp
    from q have pw2: "peers w2 = splice1 (indexOf (peers w) p) (peers w)"
      by (simp add: quiet_def)
    with n show ?thesis by (simp add: w' emit_def)
  qed
  have one: "length (attempts w') = length (attempts w) + 1"
    if r: "onPeerDisconnect p w = Some w'"
      and full: "p \<in> set (peers w) \<and> length (peers w) = numPeers w"
  proof -
    from full have "0 < length (peers w)" by (cases "peers w") auto
    with full have pos: "0 < numPeers w" by simp
    from full result [OF r] have "length (peers w') = numPeers w - 1"
      by (simp add: splice1_present length_remove1)
    with result [OF r] pos show ?thesis by simp
  qed
  from returns result one show ?thesis
    by (auto simp: splice1_present)
qed

theorem C2_removal_refills_deficit_witness:
  "\<exists>w w'.
     scenario three_static_pool [CallConnect, SocketConnect 0, PeerReady (Own 0)] = Some w \<and>
     connecting w \<and> getPeerArray w \<noteq> [] \<and> peers w = [Own 0] \<and> numPeers w = 3 \<and>
     onPeerDisconnect (Own 0) w = Some w' \<and> peers w' = [] \<and>
     length (attempts w') = length (attempts w) + 3"
proof -
  have "\<exists>w. scenario three_static_pool [CallConnect, SocketConnect 0, PeerReady (Own 0)] = Some w \<and>
      connecting w \<and> getPeerArray w \<noteq> [] \<and> peers w = [Own 0] \<and> numPeers w = 3"
    by (simp add: three_static_pool_def model_defs static_params_def connectPeer.simps
        times_unfold)
  then obtain w where
    w: "scenario three_static_pool [CallConnect, SocketConnect 0, PeerReady (Own 0)] = Some w"
    and h: "connecting w" "getPeerArray w \<noteq> []" "peers w = [Own 0]" "numPeers w = 3"
    by blast
  from C2_removal_refills_deficit [OF h(1), of "Own 0"] h(2)
  obtain w' where d: "onPeerDisconnect (Own 0) w = Some w'" by auto
  from C2_removal_refills_deficit [OF h(1), of "Own 0" w'] d h
  have "peers w' = []" "length (attempts w') = length (attempts w) + 3" by simp_all
  with w h d show ?thesis by blast
qed

text \<open>
  C3. The \<open>disconnect\<close> listener is to remove the disconnecting peer and no other,
  also when that peer was evicted before. With \<open>numPeers = 2\<close> and \<open>hardLimit\<close>,
  adding A, B, C leaves \<open>[B, C]\<close> (A is evicted); when A then emits \<open>disconnect\<close>,
  \<open>indexOf\<close> gives \<open>-1\<close> and \<open>splice(-1, 1)\<close> removes the last peer, C.
\<close>

theorem C3_evicted_peer_disconnect_removes_last:
  "map_option peers
     (scenario (PeerGroup False [] (Some base_params) (Some hard2_opts)) admitABC) =
   Some [Ext 1, Ext 2] \<and>
   map_option peers
     (scenario (PeerGroup False [] (Some base_params) (Some hard2_opts))
        (admitABC @ [PeerDisconnect (Ext 0) None])) =
   Some [Ext 1]"
  by (simp add: model_defs hard2_opts_def admitABC_def connectPeer.simps times_unfold)

text \<open>
  C4. The static-peer dialer is to dial the parsed host at the parsed port. The entry
  \<open>10.0.0.1:18333\<close> parses into host \<open>10.0.0.1\<close> and port \<open>18333\<close>, but
  \<open>_connectTCP\<close> does not use its \<open>port\<close> argument: the one attempt of \<open>connect\<close>
  calls \<open>net.connect\<close> with \<open>defaultPort\<close>, 8333.
\<close>

theorem C4_static_dial_uses_defaultPort:
  "port (parseAddress ''10.0.0.1:18333'') = JStr ''18333'' \<and>
   hostname (parseAddress ''10.0.0.1:18333'') = ''10.0.0.1'' \<and>
   map_option calls
     (scenario
        (PeerGroup False [] (Some static_params) (Some (no_opts\<lparr>opt_numPeers := Some 1\<rparr>)))
        [CallConnect]) =
   Some [NetConnect (JNum 8333) (Some ''10.0.0.1''), SocketSetTimeout 10000]"
  by (simp add: model_defs static_params_def connectPeer.simps times_unfold)

text \<open>
  C5. With no discovery method eligible an attempt is to fail at once, reported and
  not fatal, also while the pool is connecting. A pool made from parameters without
  seeds, static peers or discovery function has an empty method array, and
  \<open>connect()\<close> on it does not return: \<open>_connectPeer\<close> and \<open>_onConnection\<close> call each
  other without end.
\<close>

theorem C5_no_methods_no_return:
  "map_option getPeerArray
     (scenario (PeerGroup False [] (Some base_params) None) []) = Some [] \<and>
   scenario (PeerGroup False [] (Some base_params) None) [CallConnect] = None"
  by (simp add: model_defs times_unfold connectPeer_stuck)

text \<open>
  C6. A pool constructed with \<open>connectTimeout: 0\<close> is to have no attempt timeout.
  The constructor's \<open>opts.connectTimeout || 5 * 1000\<close> turns 0 into 5000: the attempt
  made by \<open>connect()\<close> has a pending timer, and when it fires \<open>connectError\<close> is
  emitted with \<open>Connection timed out\<close> (and the next attempt has a timer again).
\<close>

theorem C6_zero_timeout_is_default:
  "map_option (\<lambda>w. (connectTimeout w, map a_timeout (attempts w), emitted w))
     (scenario
        (PeerGroup False [] (Some static_params)
           (Some (no_opts\<lparr>opt_numPeers := Some 1, opt_connectTimeout := Some 0\<rparr>)))
        [CallConnect, TimerFires 0]) =
   Some (5000, [Fired, Armed], [EvConnectError ConnectionTimedOut None])"
  by (simp add: model_defs static_params_def connectPeer.simps times_unfold)

text \<open>
  C7. Take an attempt \<open>a\<close> whose timer is pending and which has not timed out (the
  state in which \<open>_connectPeer\<close> leaves an attempt made with a nonzero
  \<open>connectTimeout\<close>, see \<open>startAttempt_quiet\<close>).
  If the timer fires first, exactly the one \<open>connectError\<close> with
  \<open>Connection timed out\<close> is emitted and the peer set and the peer objects are
  untouched; after any further events, a call of the attempt's callback returns with
  the state unchanged, every event that belongs to the attempt's discovery method
  leaves the peer set, the emitted events, the peer objects and the number of attempts
  as they are, and the timer does not fire again.
  If the callback is called first, the timer is cleared, and after any further events
  it does not fire.
\<close>

theorem C7_single_outcome:
  assumes "a < length (attempts w)" and "a_timeout (attempts w ! a) = Armed"
    and "\<not> timedOut (attempts w ! a)"
  shows "(step (TimerFires a) w = Some w1 \<longrightarrow> run es w1 = Some w2 \<longrightarrow>
            emitted w1 = emitted w @ [EvConnectError ConnectionTimedOut None] \<and>
            peers w1 = peers w \<and> peerObjs w1 = peerObjs w \<and> created w1 = created w \<and>
            attemptCb a err w2 = Some w2 \<and>
            (answers e = Some a \<longrightarrow> step e w2 = Some w3 \<longrightarrow>
               peers w3 = peers w2 \<and> emitted w3 = emitted w2 \<and> peerObjs w3 = peerObjs w2 \<and>
               created w3 = created w2 \<and> length (attempts w3) = length (attempts w2)) \<and>
            step (TimerFires a) w2 = Some w2) \<and>
         (attemptCb a err' w = Some v1 \<longrightarrow> run es' v1 = Some v2 \<longrightarrow>
            a_timeout (attempts v1 ! a) = Cleared \<and> step (TimerFires a) v2 = Some v2)"
proof (intro conjI impI)
  assume t: "step (TimerFires a) w = Some w1" and r: "run es w1 = Some w2"
  note f = timer_fires [OF assms(1,2) t]
  from f show "emitted w1 = emitted w @ [EvConnectError ConnectionTimedOut None]"
    and "peers w1 = peers w" and "peerObjs w1 = peerObjs w" and "created w1 = created w"
    by simp_all
  from f have f': "a < length (attempts w1)" "timedOut (attempts w1 ! a)"
    "a_timeout (attempts w1 ! a) = Fired" by simp_all
  note p = timedOut_persists [OF run_keeps [OF r] f']
  from p show "attemptCb a err w2 = Some w2" by (simp add: late_callback)
  from p show "step (TimerFires a) w2 = Some w2" by simp
  assume "answers e = Some a" and "step e w2 = Some w3"
  with p late_answer [of a w2 e w3]
  show "peers w3 = peers w2" and "emitted w3 = emitted w2" and "peerObjs w3 = peerObjs w2"
    and "created w3 = created w2" and "length (attempts w3) = length (attempts w2)"
    by simp_all
next
  assume c: "attemptCb a err' w = Some v1" and r: "run es' v1 = Some v2"
  note cl = callback_clears [OF assms c]
  from cl show "a_timeout (attempts v1 ! a) = Cleared" by simp
  from cl have "a < length (attempts v1)" "a_timeout (attempts v1 ! a) \<noteq> Armed" by simp_all
  from not_pending_persists [OF run_keeps [OF r] this]
  show "step (TimerFires a) v2 = Some v2" by simp
qed

theorem C7_single_outcome_witness:
  "\<exists>w w1 w2 v1.
     scenario one_static_pool [CallConnect] = Some w \<and>
     0 < length (attempts w) \<and> a_timeout (attempts w ! 0) = Armed \<and>
     \<not> timedOut (attempts w ! 0) \<and>
     step (TimerFires 0) w = Some w1 \<and> run [SocketConnect 0] w1 = Some w2 \<and>
     emitted w1 = emitted w @ [EvConnectError ConnectionTimedOut None] \<and>
     peers w1 = peers w \<and> attemptCb 0 None w2 = Some w2 \<and>
     step (TimerFires 0) w2 = Some w2 \<and>
     attemptCb 0 None w = Some v1 \<and> a_timeout (attempts v1 ! 0) = Cleared \<and>
     step (TimerFires 0) v1 = Some v1"
proof -
  have "\<exists>w. scenario one_static_pool [CallConnect] = Some w \<and>
      0 < length (attempts w) \<and> a_timeout (attempts w ! 0) = Armed \<and>
      \<not> timedOut (attempts w ! 0) \<and>
      (\<exists>w1. step (TimerFires 0) w = Some w1 \<and> (\<exists>w2. run [SocketConnect 0] w1 = Some w2)) \<and>
      (\<exists>v1. attemptCb 0 None w = Some v1)"
    by (simp add: one_static_pool_def model_defs static_params_def connectPeer.simps
        times_unfold)
  then obtain w w1 w2 v1 where w: "scenario one_static_pool [CallConnect] = Some w"
    and h: "0 < length (attempts w)" "a_timeout (attempts w ! 0) = Armed"
      "\<not> timedOut (attempts w ! 0)"
    and t: "step (TimerFires 0) w = Some w1" and r: "run [SocketConnect 0] w1 = Some w2"
    and c: "attemptCb 0 None w = Some v1"
    by blast
  have r0: "run [] v1 = Some v1" by simp
  from C7_single_outcome [OF h, where ?w1.0 = w1 and es = "[SocketConnect 0]" and ?w2.0 = w2
      and err = None and e = "SocketConnect 0" and ?w3.0 = w2 and err' = None and ?v1.0 = v1
      and es' = "[]" and ?v2.0 = v1] t r c r0
  have "emitted w1 = emitted w @ [EvConnectError ConnectionTimedOut None]"
    "peers w1 = peers w" "attemptCb 0 None w2 = Some w2" "step (TimerFires 0) w2 = Some w2"
    "a_timeout (attempts v1 ! 0) = Cleared" "step (TimerFires 0) v1 = Some v1"
    by blast+
  with w h t r c show ?thesis by blast
qed

text \<open>
  C8. In every state \<open>w\<close> that a constructed pool reaches by any events, with
  \<open>hardLimit\<close> set: after \<open>addPeer\<close> the peer set has at most \<open>numPeers\<close>
  entries; when appending the new peer exceeds \<open>numPeers\<close>, the set was non-empty,
  exactly its front peer is removed (the new set is the rest followed by the new
  peer) and \<open>disconnect()\<close> is called on that front peer and on no other;
  otherwise the peer is appended and no peer is told to disconnect. Before and after,
  the set lists its members in the order of their admission, so that the front peer
  is the earliest admitted. \<open>addPeer\<close> returns when no \<open>onPeer\<close> listener is
  registered. The witness is the run of the
  spec: \<open>numPeers = 2\<close>, A and B admitted, then C: A is told to disconnect and the set
  is \<open>[B, C]\<close>.
\<close>

theorem C8_hardLimit_fifo:
  assumes "PeerGroup isBrowser draws ps opts = Inr w0" and "run es w0 = Some w"
    and "hardLimit w"
  shows "(onPeerListeners w = [] \<longrightarrow> addPeer p w \<noteq> None) \<and> inOrder w \<and>
         (addPeer p w = Some w' \<longrightarrow>
            length (peers w') \<le> numPeers w' \<and>
            (if length (peers w) + 1 > numPeers w
             then peers w \<noteq> [] \<and> peers w' = tl (peers w) @ [p] \<and>
                  disconnected (calls w') = disconnected (calls w) @ [hd (peers w)]
             else peers w' = peers w @ [p] \<and>
                  disconnected (calls w') = disconnected (calls w)) \<and>
            inOrder w')"
proof (intro conjI impI)
  assume "onPeerListeners w = []"
  then show "addPeer p w \<noteq> None" by (rule addPeer_returns)
next
  show "inOrder w"
    by (rule run_inOrder [OF assms(2) PeerGroup_inOrder [OF assms(1)]])
next
  assume "addPeer p w = Some w'"
  then show "inOrder w'"
    by (rule addPeer_inOrder) (rule run_inOrder [OF assms(2) PeerGroup_inOrder [OF assms(1)]])
next
  assume a: "addPeer p w = Some w'"
  from PeerGroup_initial [OF assms(1)] have init: "peers w0 = []" "0 < numPeers w0" by simp_all
  from run_keeps [OF assms(2)] have k: "keeps w0 w" .
  with init assms(3) have inv: "length (peers w) \<le> numPeers w" "0 < numPeers w"
    by (auto simp: keeps_def)
  from addPeer_keeps [OF a] have k': "keeps w w'" .
  with inv assms(3) show "length (peers w') \<le> numPeers w'"
    by (auto simp: keeps_def)
  show "if length (peers w) + 1 > numPeers w
        then peers w \<noteq> [] \<and> peers w' = tl (peers w) @ [p] \<and>
             disconnected (calls w') = disconnected (calls w) @ [hd (peers w)]
        else peers w' = peers w @ [p] \<and> disconnected (calls w') = disconnected (calls w)"
  proof (cases "length (peers w) + 1 > numPeers w")
    case True
    with inv have ne: "peers w \<noteq> []" by auto
    with True addPeer_result [OF a] assms(3) show ?thesis by simp
  next
    case False
    with addPeer_result [OF a] show ?thesis by simp
  qed
qed

theorem C8_hardLimit_fifo_witness:
  "\<exists>w0 w w'.
     PeerGroup False [] (Some base_params) (Some hard2_opts) = Inr w0 \<and>
     run [PeerReady (Ext 0), CallAddPeer (Ext 0), PeerReady (Ext 1), CallAddPeer (Ext 1),
          PeerReady (Ext 2)] w0 = Some w \<and>
     hardLimit w \<and> onPeerListeners w = [] \<and> peers w = [Ext 0, Ext 1] \<and>
     addPeer (Ext 2) w = Some w' \<and> length (peers w') \<le> numPeers w' \<and>
     peers w' = [Ext 1, Ext 2] \<and> disconnected (calls w') = [Ext 0]"
proof -
  let ?es = "[PeerReady (Ext 0), CallAddPeer (Ext 0), PeerReady (Ext 1), CallAddPeer (Ext 1),
          PeerReady (Ext 2)]"
  have "\<exists>w0 w. PeerGroup False [] (Some base_params) (Some hard2_opts) = Inr w0 \<and>
      run ?es w0 = Some w \<and> hardLimit w \<and> onPeerListeners w = [] \<and>
      peers w = [Ext 0, Ext 1] \<and> numPeers w = 2 \<and> disconnected (calls w) = []"
    by (simp add: hard2_opts_def model_defs connectPeer.simps times_unfold)
  then obtain w0 w where w0: "PeerGroup False [] (Some base_params) (Some hard2_opts) = Inr w0"
    and r: "run ?es w0 = Some w"
    and h: "hardLimit w" "onPeerListeners w = []" "peers w = [Ext 0, Ext 1]" "numPeers w = 2"
      "disconnected (calls w) = []"
    by blast
  from C8_hardLimit_fifo [OF w0 r h(1), of "Ext 2"] h(2)
  obtain w' where a: "addPeer (Ext 2) w = Some w'" by auto
  from C8_hardLimit_fifo [OF w0 r h(1), of "Ext 2" w'] a h
  have "length (peers w') \<le> numPeers w'" "peers w' = [Ext 1, Ext 2]"
    "disconnected (calls w') = [Ext 0]" by auto
  with w0 r h a show ?thesis by blast
qed

text \<open>
  C9. After \<open>disconnect()\<close> nothing is to chain a new connection attempt. The
  \<open>onPeer\<close> listener that \<open>connect()\<close> registers when overlay seeds are configured
  calls \<open>_fillPeers\<close> without looking at \<open>connecting\<close>: after \<open>connect()\<close> and
  \<open>disconnect()\<close>, the seed dial still in flight succeeds, its peer becomes ready and
  is admitted, and two attempts (3 wanted, 1 present) are made while \<open>connecting\<close>
  is false.
\<close>

theorem C9_fill_after_disconnect:
  "map_option (\<lambda>w. (connecting w, length (attempts w)))
     (scenario
        (PeerGroup False [] (Some seeded_params) (Some (no_opts\<lparr>opt_numPeers := Some 3\<rparr>)))
        [CallConnect, CallDisconnect, SeedAnswer None]) = Some (False, 0) \<and>
   map_option (\<lambda>w. (connecting w, length (attempts w), calls w))
     (scenario
        (PeerGroup False [] (Some seeded_params) (Some (no_opts\<lparr>opt_numPeers := Some 3\<rparr>)))
        [CallConnect, CallDisconnect, SeedAnswer None, PeerReady (Own 0)]) =
   Some (False, 2,
     [ExchangeConnect ''websocket'' ''seed.example'' (JStr ''8192''), NewPeer (Own 0),
      NetConnect (JNum 8333) (Some ''10.0.0.1''), SocketSetTimeout 10000,
      NetConnect (JNum 8333) (Some ''10.0.0.1''), SocketSetTimeout 10000])"
  by (simp add: model_defs static_params_def seeded_params_def connectPeer.simps times_unfold)

text \<open>
  C10. Construction is claimed to succeed whenever \<open>id\<close>, \<open>magic\<close> and
  \<open>defaultPort\<close> are present (non-null). It throws for a \<open>defaultPort\<close> of 0 and
  for an empty \<open>id\<close>, which are present and not null.
\<close>

theorem C10_counterexample:
  "\<not> nullish (net_id port_zero_params) \<and> \<not> nullish (magic port_zero_params) \<and>
   \<not> nullish (defaultPort port_zero_params) \<and>
   PeerGroup False [] (Some port_zero_params) None = Inl InvalidNetworkParameters \<and>
   \<not> nullish (net_id empty_id_params) \<and> \<not> nullish (magic empty_id_params) \<and>
   \<not> nullish (defaultPort empty_id_params) \<and>
   PeerGroup False [] (Some empty_id_params) None = Inl InvalidNetworkParameters"
  by (simp add: port_zero_params_def empty_id_params_def base_params_def PeerGroup_def
      assertParams_def)

text \<open>
  C10, amended. Construction succeeds exactly when \<open>params\<close> is an object whose \<open>id\<close>
  is truthy, whose \<open>magic\<close> is neither \<open>null\<close> nor \<open>undefined\<close> and whose
  \<open>defaultPort\<close> is truthy; in every other case it throws
  \<open>Invalid network parameters\<close>, and no pool exists.
\<close>

theorem C10_construction:
  "((\<exists>w. PeerGroup isBrowser draws ps opts = Inr w) =
      (case ps of None \<Rightarrow> False
       | Some p \<Rightarrow> truthy (net_id p) \<and> \<not> nullish (magic p) \<and> truthy (defaultPort p))) \<and>
   ((PeerGroup isBrowser draws ps opts = Inl InvalidNetworkParameters) =
      (case ps of None \<Rightarrow> True
       | Some p \<Rightarrow> \<not> truthy (net_id p) \<or> nullish (magic p) \<or> \<not> truthy (defaultPort p)))"
  by (auto simp: PeerGroup_def assertParams_def Let_def split: option.splits)

theorem C10_construction_witness:
  "(\<exists>w. PeerGroup False [] (Some base_params) None = Inr w) \<and>
   PeerGroup False [] (Some (base_params\<lparr>magic := JNull\<rparr>)) None =
     Inl InvalidNetworkParameters \<and>
   PeerGroup False [] None None = Inl InvalidNetworkParameters"
  using C10_construction [of False "[]" "Some base_params" None]
    C10_construction [of False "[]" "Some (base_params\<lparr>magic := JNull\<rparr>)" None]
    C10_construction [of False "[]" None None]
  by (simp add: base_params_def)

end
